theory Spec2Isabelle
  imports Main
begin

section \<open>The catalog model of book/models.py\<close>

text \<open>
  The models of \<^verbatim>\<open>projectsite/book/models.py\<close> and the borrowing seeder of
  \<^verbatim>\<open>management/commands/create_initial_data.py\<close>, as functions over an explicit
  storage. A Python model object is a record; a method that mutates \<open>self\<close> and
  writes to the storage takes the object and the storage and returns the exception
  raised (if any), the object as the method left it, and the storage as it left it.

  Fields no modelled method reads are left out: the title, ISBN, year, description,
  cover, authors and genres of a Book, and the added date of a BookInstance.
\<close>

subsection \<open>Exceptions\<close>

datatype error =
    ValueError string
  | TypeError
  | IntegrityError
  | DoesNotExist
  | RelatedObjectDoesNotExist

text \<open>The exception of \<open>Borrowing.save\<close>, called InstanceUnavailable by the specification.\<close>

abbreviation InstanceUnavailable :: error where
  "InstanceUnavailable \<equiv> ValueError ''This book copy is not available!''"

subsection \<open>Model objects\<close>

text \<open>
  A foreign key of an object is the stored id (the attribute \<open>book_id\<close>) together with
  the related object once it has been fetched or assigned (the cache behind the
  attribute \<open>book\<close>).
\<close>

datatype 'a related = Related (rel_id: "nat option") (cached: "'a option")

datatype condition = excellent | good | fair | damaged

record Book =
  Book_id :: "nat option"
  total_copies :: int
  available_copies :: int

record BookInstance =
  BookInstance_id :: "nat option"
  book :: "Book related"
  inventory_number :: string
  condition :: condition
  is_available :: bool

record Borrowing =
  pk :: "nat option"
  book_instance :: "BookInstance related"
  borrower :: nat
  borrow_date :: int
  due_date :: int
  return_date :: "int option"
  is_returned :: bool
  fine :: int

text \<open>
  The borrower is the key of a User. Times are in seconds, dates in days, and the fine
  in hundredths: the field is declared with six digits, two of them decimal places, so
  a fine fits the field when it has at most six digits.
\<close>

definition fine_fits :: "int \<Rightarrow> bool" where
  "fine_fits f = (- 1000000 < f \<and> f < 1000000)"

subsection \<open>The storage\<close>

text \<open>
  One table per model, from primary key to row, and the next automatic key of each
  table; of the users of the account application, their keys. A row is the object with
  its caches dropped.
\<close>

record database =
  Book_rows :: "nat \<rightharpoonup> Book"
  BookInstance_rows :: "nat \<rightharpoonup> BookInstance"
  Borrowing_rows :: "nat \<rightharpoonup> Borrowing"
  User_ids :: "nat list"
  User_seq :: nat
  Book_seq :: nat
  BookInstance_seq :: nat
  Borrowing_seq :: nat

definition empty_database :: database where
  "empty_database =
     \<lparr>Book_rows = Map.empty, BookInstance_rows = Map.empty, Borrowing_rows = Map.empty,
      User_ids = [], User_seq = 1, Book_seq = 1, BookInstance_seq = 1, Borrowing_seq = 1\<rparr>"

definition uncache :: "'a related \<Rightarrow> 'a related" where
  "uncache r = Related (rel_id r) None"

definition fetch_Book :: "database \<Rightarrow> nat \<Rightarrow> Book option" where
  "fetch_Book db k = map_option (\<lambda>r. r\<lparr>Book_id := Some k\<rparr>) (Book_rows db k)"

definition fetch_BookInstance :: "database \<Rightarrow> nat \<Rightarrow> BookInstance option" where
  "fetch_BookInstance db k =
     map_option (\<lambda>r. r\<lparr>BookInstance_id := Some k, book := uncache (book r)\<rparr>)
       (BookInstance_rows db k)"

text \<open>
  Fetching a Borrowing fails (\<open>None\<close>) when no row has the key, and also when the fine of
  the row does not fit the field: the storage keeps such a value, and reading it back
  raises.
\<close>

definition fetch_Borrowing :: "database \<Rightarrow> nat \<Rightarrow> Borrowing option" where
  "fetch_Borrowing db k =
     (case Borrowing_rows db k of
        None \<Rightarrow> None
      | Some r \<Rightarrow>
          if fine_fits (fine r)
          then Some (r\<lparr>pk := Some k, book_instance := uncache (book_instance r)\<rparr>)
          else None)"

text \<open>
  Reading a foreign-key attribute: the cached object when there is one, otherwise the
  row of the stored id, fetched now. The caller keeps the object it got in the cache.
\<close>

definition get_book :: "BookInstance \<Rightarrow> database \<Rightarrow> error + Book" where
  "get_book self db =
     (case cached (book self) of
        Some b \<Rightarrow> Inr b
      | None \<Rightarrow>
          (case rel_id (book self) of
             None \<Rightarrow> Inl RelatedObjectDoesNotExist
           | Some k \<Rightarrow> (case fetch_Book db k of None \<Rightarrow> Inl DoesNotExist | Some b \<Rightarrow> Inr b)))"

definition set_book :: "BookInstance \<Rightarrow> Book \<Rightarrow> BookInstance" where
  "set_book self b = self\<lparr>book := Related (rel_id (book self)) (Some b)\<rparr>"

definition get_book_instance :: "Borrowing \<Rightarrow> database \<Rightarrow> error + BookInstance" where
  "get_book_instance self db =
     (case cached (book_instance self) of
        Some i \<Rightarrow> Inr i
      | None \<Rightarrow>
          (case rel_id (book_instance self) of
             None \<Rightarrow> Inl RelatedObjectDoesNotExist
           | Some k \<Rightarrow>
               (case fetch_BookInstance db k of None \<Rightarrow> Inl DoesNotExist | Some i \<Rightarrow> Inr i)))"

definition set_book_instance :: "Borrowing \<Rightarrow> BookInstance \<Rightarrow> Borrowing" where
  "set_book_instance self i =
     self\<lparr>book_instance := Related (rel_id (book_instance self)) (Some i)\<rparr>"

text \<open>
  What the framework's \<open>Model.save\<close> does with a cached related object before it
  writes the row: an unsaved one is refused, a missing stored id is taken from it, and
  a cache that disagrees with the stored id is dropped.
\<close>

definition prepare_related :: "('a \<Rightarrow> nat option) \<Rightarrow> 'a related \<Rightarrow> error + 'a related" where
  "prepare_related pk_of r =
     (case cached r of
        None \<Rightarrow> Inr r
      | Some obj \<Rightarrow>
          (case pk_of obj of
             None \<Rightarrow>
               Inl (ValueError ''save() prohibited to prevent data loss due to unsaved related object'')
           | Some k \<Rightarrow>
               (let r1 = (if rel_id r = None then Related (Some k) (Some obj) else r)
                in Inr (if rel_id r1 \<noteq> Some k then Related (rel_id r1) None else r1))))"

text \<open>
  \<open>super().save()\<close> of a Book. Both copy counts are declared
  \<open>PositiveIntegerField\<close>: the column carries the check \<open>>= 0\<close>, and the storage
  refuses a row that breaks it, writing nothing. An object without a key is inserted
  under the next automatic key, an object with a key replaces the row of that key.
\<close>

definition super_save_Book :: "Book \<Rightarrow> database \<Rightarrow> error option \<times> Book \<times> database" where
  "super_save_Book self db =
     (if total_copies self < 0 \<or> available_copies self < 0 then (Some IntegrityError, self, db)
      else
        (let k = (case Book_id self of None \<Rightarrow> Book_seq db | Some k \<Rightarrow> k);
             self' = self\<lparr>Book_id := Some k\<rparr>
         in (None, self',
             db\<lparr>Book_rows := (Book_rows db)(k \<mapsto> self'),
                Book_seq := max (Book_seq db) (Suc k)\<rparr>)))"

text \<open>
  A foreign key column is not null and refers to a stored row. The methods of
  models.py open no transaction, so each row is written on its own and the storage
  refuses a row with a dangling key at once, with what was written before it kept.
\<close>

definition stored_key :: "(nat \<rightharpoonup> 'a) \<Rightarrow> nat option \<Rightarrow> bool" where
  "stored_key table k = (case k of None \<Rightarrow> False | Some j \<Rightarrow> table j \<noteq> None)"

text \<open>
  \<open>super().save()\<close> of a BookInstance. The inventory number is declared
  \<open>unique=True\<close>: the storage refuses a row whose number another row already has.
\<close>

definition inventory_number_taken :: "database \<Rightarrow> nat \<Rightarrow> string \<Rightarrow> bool" where
  "inventory_number_taken db k s =
     list_ex (\<lambda>j. j \<noteq> k \<and>
                  (case BookInstance_rows db j of
                     None \<Rightarrow> False
                   | Some r \<Rightarrow> inventory_number r = s))
       [0 ..< BookInstance_seq db]"

definition super_save_BookInstance ::
  "BookInstance \<Rightarrow> database \<Rightarrow> error option \<times> BookInstance \<times> database" where
  "super_save_BookInstance self db =
     (case prepare_related Book_id (book self) of
        Inl e \<Rightarrow> (Some e, self, db)
      | Inr r \<Rightarrow>
          (let self1 = self\<lparr>book := r\<rparr> in
           if \<not> stored_key (Book_rows db) (rel_id r) then (Some IntegrityError, self1, db)
           else
             (let k = (case BookInstance_id self1 of None \<Rightarrow> BookInstance_seq db | Some k \<Rightarrow> k) in
              if inventory_number_taken db k (inventory_number self1)
              then (Some IntegrityError, self1, db)
              else
                (let self2 = self1\<lparr>BookInstance_id := Some k\<rparr>
                 in (None, self2,
                     db\<lparr>BookInstance_rows := (BookInstance_rows db)(k \<mapsto> self2\<lparr>book := uncache r\<rparr>),
                        BookInstance_seq := max (BookInstance_seq db) (Suc k)\<rparr>)))))"

text \<open>\<open>super().save()\<close> of a Borrowing.\<close>

definition super_save_Borrowing ::
  "Borrowing \<Rightarrow> database \<Rightarrow> error option \<times> Borrowing \<times> database" where
  "super_save_Borrowing self db =
     (case prepare_related BookInstance_id (book_instance self) of
        Inl e \<Rightarrow> (Some e, self, db)
      | Inr r \<Rightarrow>
          (let self1 = self\<lparr>book_instance := r\<rparr> in
           if \<not> stored_key (BookInstance_rows db) (rel_id r) \<or>
              borrower self1 \<notin> set (User_ids db)
           then (Some IntegrityError, self1, db)
           else
             (let k = (case pk self1 of None \<Rightarrow> Borrowing_seq db | Some k \<Rightarrow> k);
                  self2 = self1\<lparr>pk := Some k\<rparr>
              in (None, self2,
                  db\<lparr>Borrowing_rows := (Borrowing_rows db)(k \<mapsto> self2\<lparr>book_instance := uncache r\<rparr>),
                     Borrowing_seq := max (Borrowing_seq db) (Suc k)\<rparr>))))"

subsection \<open>Book.save\<close>

text \<open>
  \<^verbatim>\<open>
  def save(self, *args, **kwargs):
      # Keep available_copies <= total_copies
      if self.available_copies > self.total_copies:
          self.available_copies = self.total_copies
      super().save(*args, **kwargs)
  \<close>
\<close>

definition Book_save :: "Book \<Rightarrow> database \<Rightarrow> error option \<times> Book \<times> database" where
  "Book_save self db =
     super_save_Book
       (if available_copies self > total_copies self
        then self\<lparr>available_copies := total_copies self\<rparr> else self) db"

subsection \<open>BookInstance.save\<close>

text \<open>
  \<^verbatim>\<open>
  def save(self, *args, **kwargs):
      if not self.inventory_number:
          last = BookInstance.objects.filter(book=self.book).order_by('id').last()
          num = 1 if not last else int(last.inventory_number.split('-')[-1]) + 1
          self.inventory_number = f"{self.book.id:03d}-{num:04d}"
      super().save(*args, **kwargs)
  \<close>
  Strings are lists of characters. \<open>int(s)\<close> accepts surrounding white space, a sign,
  and decimal digits with single underscores between them, and raises ValueError on
  anything else; \<open>{n:04d}\<close> pads with zeros to the width, the sign included.
\<close>

definition is_digit :: "char \<Rightarrow> bool" where
  "is_digit c = (48 \<le> (of_char c :: nat) \<and> (of_char c :: nat) \<le> 57)"

definition digit_value :: "char \<Rightarrow> nat" where
  "digit_value c = of_char c - 48"

definition is_space :: "char \<Rightarrow> bool" where
  "is_space c =
     (let n = (of_char c :: nat) in (9 \<le> n \<and> n \<le> 13) \<or> (28 \<le> n \<and> n \<le> 32))"

definition strip_ws :: "string \<Rightarrow> string" where
  "strip_ws s = rev (dropWhile is_space (rev (dropWhile is_space s)))"

fun digits_value :: "nat \<Rightarrow> string \<Rightarrow> nat option" where
  "digits_value acc [] = Some acc"
| "digits_value acc (c # cs) =
     (if is_digit c then digits_value (10 * acc + digit_value c) cs
      else if c = CHR ''_'' \<and> cs \<noteq> [] \<and> is_digit (hd cs) then digits_value acc cs
      else None)"

definition py_int :: "string \<Rightarrow> int option" where
  "py_int s =
     (let t = strip_ws s;
          neg = (t \<noteq> [] \<and> hd t = CHR ''-'');
          u = (if t \<noteq> [] \<and> (hd t = CHR ''+'' \<or> hd t = CHR ''-'') then tl t else t)
      in if u = [] \<or> \<not> is_digit (hd u) then None
         else map_option (\<lambda>n. if neg then - int n else int n) (digits_value 0 u))"

text \<open>\<open>s.split('-')[-1]\<close>: what follows the last hyphen, the whole string without one.\<close>

definition last_segment :: "string \<Rightarrow> string" where
  "last_segment s = rev (takeWhile (\<lambda>c. c \<noteq> CHR ''-'') (rev s))"

fun decimal :: "nat \<Rightarrow> string" where
  "decimal n =
     (if n < 10 then [char_of (48 + n)]
      else decimal (n div 10) @ [char_of (48 + n mod 10)])"

declare decimal.simps [simp del]

definition zero_pad :: "nat \<Rightarrow> string \<Rightarrow> string" where
  "zero_pad w s = replicate (w - length s) (CHR ''0'') @ s"

definition format_d :: "nat \<Rightarrow> int \<Rightarrow> string" where
  "format_d w n =
     (if n < 0 then CHR ''-'' # zero_pad (w - 1) (decimal (nat (- n)))
      else zero_pad w (decimal (nat n)))"

text \<open>\<open>BookInstance.objects.filter(book=b).order_by('id').last()\<close>\<close>

definition ids_of_book :: "database \<Rightarrow> nat \<Rightarrow> nat list" where
  "ids_of_book db b =
     filter (\<lambda>j. case BookInstance_rows db j of
                   None \<Rightarrow> False
                 | Some r \<Rightarrow> rel_id (book r) = Some b)
       [0 ..< BookInstance_seq db]"

definition last_of_book :: "database \<Rightarrow> nat \<Rightarrow> BookInstance option" where
  "last_of_book db b =
     (case rev (ids_of_book db b) of [] \<Rightarrow> None | j # _ \<Rightarrow> fetch_BookInstance db j)"

definition next_number :: "database \<Rightarrow> nat \<Rightarrow> error + int" where
  "next_number db b =
     (case last_of_book db b of
        None \<Rightarrow> Inr 1
      | Some l \<Rightarrow>
          (case py_int (last_segment (inventory_number l)) of
             None \<Rightarrow> Inl (ValueError ''invalid literal for int() with base 10'')
           | Some n \<Rightarrow> Inr (n + 1)))"

text \<open>
  A book that was never saved has no id: the number cannot be formatted, and the
  method raises before it writes.
\<close>

definition BookInstance_save ::
  "BookInstance \<Rightarrow> database \<Rightarrow> error option \<times> BookInstance \<times> database" where
  "BookInstance_save self db =
     (if inventory_number self = [] then
        (case get_book self db of
           Inl e \<Rightarrow> (Some e, self, db)
         | Inr bk \<Rightarrow>
             (let self1 = set_book self bk in
              case Book_id bk of
                None \<Rightarrow> (Some TypeError, self1, db)
              | Some b \<Rightarrow>
                  (case next_number db b of
                     Inl e \<Rightarrow> (Some e, self1, db)
                   | Inr num \<Rightarrow>
                       super_save_BookInstance
                         (self1\<lparr>inventory_number := format_d 3 (int b) @ ''-'' @ format_d 4 num\<rparr>)
                         db)))
      else super_save_BookInstance self db)"

subsection \<open>Borrowing.save and Borrowing.mark_as_returned\<close>

text \<open>
  \<^verbatim>\<open>
  def save(self, *args, **kwargs):
      if not self.pk:  # new borrowing
          if self.book_instance.is_available:
              self.book_instance.is_available = False
              self.book_instance.book.available_copies -= 1
              self.book_instance.book.save()
              self.book_instance.save()
          else:
              raise ValueError("This book copy is not available!")
      super().save(*args, **kwargs)
  \<close>
  \<open>not self.pk\<close> holds of no key and of the key 0.
\<close>

definition Borrowing_save ::
  "Borrowing \<Rightarrow> database \<Rightarrow> error option \<times> Borrowing \<times> database" where
  "Borrowing_save self db =
     (if pk self = None \<or> pk self = Some 0 then
        (case get_book_instance self db of
           Inl e \<Rightarrow> (Some e, self, db)
         | Inr inst \<Rightarrow>
             if is_available inst then
               (let inst1 = inst\<lparr>is_available := False\<rparr> in
                case get_book inst1 db of
                  Inl e \<Rightarrow> (Some e, set_book_instance self inst1, db)
                | Inr bk \<Rightarrow>
                    (case Book_save (bk\<lparr>available_copies := available_copies bk - 1\<rparr>) db of
                       (Some e, bk', db1) \<Rightarrow>
                         (Some e, set_book_instance self (set_book inst1 bk'), db1)
                     | (None, bk', db1) \<Rightarrow>
                         (case BookInstance_save (set_book inst1 bk') db1 of
                            (Some e, inst', db2) \<Rightarrow> (Some e, set_book_instance self inst', db2)
                          | (None, inst', db2) \<Rightarrow>
                              super_save_Borrowing (set_book_instance self inst') db2)))
             else (Some InstanceUnavailable, set_book_instance self inst, db))
      else super_save_Borrowing self db)"

text \<open>
  \<^verbatim>\<open>
  def mark_as_returned(self):
      if not self.is_returned:
          self.is_returned = True
          self.return_date = timezone.now()
          self.book_instance.is_available = True
          self.book_instance.book.available_copies += 1
          self.book_instance.book.save()
          self.book_instance.save()
          self.save()
  \<close>
  The current time is the parameter \<open>now\<close>.
\<close>

definition mark_as_returned ::
  "Borrowing \<Rightarrow> int \<Rightarrow> database \<Rightarrow> error option \<times> Borrowing \<times> database" where
  "mark_as_returned self now db =
     (if \<not> is_returned self then
        (let self1 = self\<lparr>is_returned := True, return_date := Some now\<rparr> in
         case get_book_instance self1 db of
           Inl e \<Rightarrow> (Some e, self1, db)
         | Inr inst \<Rightarrow>
             (let inst1 = inst\<lparr>is_available := True\<rparr> in
              case get_book inst1 db of
                Inl e \<Rightarrow> (Some e, set_book_instance self1 inst1, db)
              | Inr bk \<Rightarrow>
                  (case Book_save (bk\<lparr>available_copies := available_copies bk + 1\<rparr>) db of
                     (Some e, bk', db1) \<Rightarrow>
                       (Some e, set_book_instance self1 (set_book inst1 bk'), db1)
                   | (None, bk', db1) \<Rightarrow>
                       (case BookInstance_save (set_book inst1 bk') db1 of
                          (Some e, inst', db2) \<Rightarrow> (Some e, set_book_instance self1 inst', db2)
                        | (None, inst', db2) \<Rightarrow>
                            Borrowing_save (set_book_instance self1 inst') db2))))
      else (None, self, db))"

text \<open>
  \<open>Borrowing.objects.create(book_instance=..., borrower=..., ...)\<close>: the object is
  built without a key, with the instance in the cache of its foreign key, and saved.
\<close>

definition new_Borrowing :: "BookInstance \<Rightarrow> nat \<Rightarrow> int \<Rightarrow> int \<Rightarrow> bool \<Rightarrow> int \<Rightarrow> Borrowing" where
  "new_Borrowing inst u bd dd ret f =
     \<lparr>pk = None, book_instance = Related (BookInstance_id inst) (Some inst), borrower = u,
      borrow_date = bd, due_date = dd, return_date = None, is_returned = ret, fine = f\<rparr>"

definition Borrowing_objects_create ::
  "BookInstance \<Rightarrow> nat \<Rightarrow> int \<Rightarrow> int \<Rightarrow> bool \<Rightarrow> int \<Rightarrow> database
     \<Rightarrow> error option \<times> Borrowing \<times> database" where
  "Borrowing_objects_create inst u bd dd ret f db =
     Borrowing_save (new_Borrowing inst u bd dd ret f) db"

subsection \<open>Operations on stored objects\<close>

text \<open>
  The operations a caller performs on the catalog, each on objects fetched from the
  storage when it starts: creating a user (the account application stores it under the
  next key), creating a Book with given copy counts, saving a stored Book
  with new copy counts, creating a BookInstance of a stored Book (no inventory number,
  available, as the seeder creates them), creating a Borrowing of a stored instance
  (not returned, no fine), and marking a stored Borrowing as returned at a given time.
  An operation on a key that is not stored, or on a Borrowing row that cannot be read,
  raises before it writes; an operation that raises leaves the storage as it was when
  the exception was raised.
\<close>

datatype op =
    Create_User
  | Create_Book int int
  | Save_Book nat int int
  | Create_BookInstance nat condition
  | Create_Borrowing nat nat int int
  | Mark_Returned nat int

fun step :: "database \<Rightarrow> op \<Rightarrow> database" where
  "step db Create_User =
     db\<lparr>User_ids := User_ids db @ [User_seq db], User_seq := Suc (User_seq db)\<rparr>"
| "step db (Create_Book t a) =
     snd (snd (Book_save \<lparr>Book_id = None, total_copies = t, available_copies = a\<rparr> db))"
| "step db (Save_Book k t a) =
     (case fetch_Book db k of
        None \<Rightarrow> db
      | Some bk \<Rightarrow> snd (snd (Book_save (bk\<lparr>total_copies := t, available_copies := a\<rparr>) db)))"
| "step db (Create_BookInstance b c) =
     (case fetch_Book db b of
        None \<Rightarrow> db
      | Some bk \<Rightarrow>
          snd (snd (BookInstance_save
                      \<lparr>BookInstance_id = None, book = Related (Some b) (Some bk),
                       inventory_number = [], condition = c, is_available = True\<rparr> db)))"
| "step db (Create_Borrowing i u bd dd) =
     (case fetch_BookInstance db i of
        None \<Rightarrow> db
      | Some inst \<Rightarrow> snd (snd (Borrowing_objects_create inst u bd dd False 0 db)))"
| "step db (Mark_Returned k now) =
     (case fetch_Borrowing db k of
        None \<Rightarrow> db
      | Some b \<Rightarrow> snd (snd (mark_as_returned b now db)))"

definition run :: "op list \<Rightarrow> database" where
  "run ops = foldl step empty_database ops"

section \<open>The borrowing seeder of create_initial_data.py\<close>

text \<open>
  \<^verbatim>\<open>
  def create_borrowings(self, count):
      users = list(User.objects.all())
      available_instances = list(BookInstance.objects.filter(is_available=True))
      if not users:
          self.stdout.write(self.style.ERROR("No users found. Seed users first."))
          return
      if not available_instances:
          self.stdout.write(self.style.ERROR("No available book instances found. ..."))
          return
      created = 0
      tries = 0
      max_tries = count * 10
      while created < count and tries < max_tries:
          tries += 1
          if not available_instances:
              available_instances = list(BookInstance.objects.filter(is_available=True))
              if not available_instances:
                  break
          instance = random.choice(available_instances)
          borrower = random.choice(users)
          borrow_dt = self.fake.date_time_between(start_date="-120d", end_date="now", ...)
          due_date = (borrow_dt + timedelta(days=random.randint(7, 21))).date()
          borrowing = Borrowing.objects.create(book_instance=instance, borrower=borrower,
              borrow_date=borrow_dt, due_date=due_date, is_returned=False, fine=0.00)
          if random.random() < 0.55:
              borrowing.mark_as_returned()
          available_instances = [bi for bi in available_instances if bi.id != instance.id]
          created += 1
      self.stdout.write(self.style.SUCCESS(f"Created {created} borrowing records."))
  \<close>
  The random source is a function from the number of the attempt to what is drawn in
  that attempt: the two numbers that \<open>random.choice\<close> reduces to an index of its list, the borrow time (in seconds), the
  number of days to the due date, whether \<open>random.random() < 0.55\<close>, and the time
  \<open>timezone.now()\<close> reads if the borrowing is returned. Every value of the right type
  may be drawn here, which is more than the ranges the seeder draws from.
\<close>

record draw =
  pick_instance :: nat
  pick_user :: nat
  drawn_borrow_dt :: int
  drawn_days :: int
  drawn_returned :: bool
  drawn_now :: int

definition choice :: "'a list \<Rightarrow> nat \<Rightarrow> 'a" where
  "choice xs r = xs ! (r mod length xs)"

text \<open>\<open>list(BookInstance.objects.filter(is_available=True))\<close>\<close>

definition filter_available :: "database \<Rightarrow> BookInstance list" where
  "filter_available db =
     concat (map (\<lambda>j. case fetch_BookInstance db j of
                        None \<Rightarrow> []
                      | Some inst \<Rightarrow> if is_available inst then [inst] else [])
               [0 ..< BookInstance_seq db])"

record loop_state =
  storage :: database
  available_instances :: "BookInstance list"
  created :: int
  tries :: int

text \<open>
  One pass through the body of the \<open>while\<close> loop: it ends at the \<open>break\<close>, with an
  exception, or at the end of the body with the state for the next test of the loop
  condition.
\<close>

datatype 'a flow = Continue 'a | Break 'a | Raise error 'a

text \<open>
  \<open>random.choice\<close> returns an element of the pool itself, not a copy, and
  \<open>Borrowing.save\<close> and \<open>mark_as_returned\<close> assign to the attributes of the instance they
  are given. After the calls, the pool therefore holds, at the place of the pick, the
  instance as the Borrowing holds it; the list comprehension then removes every element
  with that instance's id.
\<close>

definition picked_object :: "BookInstance \<Rightarrow> Borrowing \<Rightarrow> BookInstance" where
  "picked_object instance borrowing =
     (case cached (book_instance borrowing) of Some i \<Rightarrow> i | None \<Rightarrow> instance)"

definition loop_body :: "(nat \<Rightarrow> draw) \<Rightarrow> nat list \<Rightarrow> loop_state \<Rightarrow> loop_state flow" where
  "loop_body rnd users s =
     (let tries' = tries s + 1;
          pool = (if available_instances s = [] then filter_available (storage s)
                  else available_instances s)
      in if pool = [] then Break (s\<lparr>available_instances := pool, tries := tries'\<rparr>)
         else
           (let d = rnd (nat tries');
                at = pick_instance d mod length pool;
                instance = pool ! at;
                borrower = choice users (pick_user d);
                borrow_dt = drawn_borrow_dt d;
                due_date = (borrow_dt + 86400 * drawn_days d) div 86400
            in case Borrowing_objects_create instance borrower borrow_dt due_date False 0
                      (storage s) of
                 (Some e, borrowing, db1) \<Rightarrow>
                   Raise e
                     (s\<lparr>storage := db1,
                        available_instances := pool[at := picked_object instance borrowing],
                        tries := tries'\<rparr>)
               | (None, borrowing, db1) \<Rightarrow>
                   (case (if drawn_returned d then mark_as_returned borrowing (drawn_now d) db1
                          else (None, borrowing, db1)) of
                      (Some e, borrowing', db2) \<Rightarrow>
                        Raise e
                          (s\<lparr>storage := db2,
                             available_instances := pool[at := picked_object instance borrowing'],
                             tries := tries'\<rparr>)
                    | (None, borrowing', db2) \<Rightarrow>
                        (let instance' = picked_object instance borrowing'
                         in Continue
                              \<lparr>storage = db2,
                               available_instances =
                                 filter (\<lambda>bi. BookInstance_id bi \<noteq> BookInstance_id instance')
                                   (pool[at := instance']),
                               created = created s + 1,
                               tries = tries'\<rparr>))))"

lemma loop_body_Continue_tries:
  "loop_body rnd users s = Continue s' \<Longrightarrow> tries s' = tries s + 1"
  by (auto simp add: loop_body_def Let_def split: if_splits prod.splits option.splits)

function borrowings_loop ::
  "(nat \<Rightarrow> draw) \<Rightarrow> int \<Rightarrow> nat list \<Rightarrow> loop_state \<Rightarrow> error option \<times> loop_state" where
  "borrowings_loop rnd count users s =
     (if created s < count \<and> tries s < count * 10 then
        (case loop_body rnd users s of
           Continue s' \<Rightarrow> borrowings_loop rnd count users s'
         | Break s' \<Rightarrow> (None, s')
         | Raise e s' \<Rightarrow> (Some e, s'))
      else (None, s))"
  by pat_completeness auto

termination
  by (relation "measure (\<lambda>(rnd, count, users, s). nat (count * 10 - tries s))")
    (auto dest: loop_body_Continue_tries)

declare borrowings_loop.simps [simp del]

definition create_borrowings :: "(nat \<Rightarrow> draw) \<Rightarrow> int \<Rightarrow> database \<Rightarrow> error option \<times> loop_state" where
  "create_borrowings rnd count db =
     (let users = User_ids db;
          available = filter_available db;
          s0 = \<lparr>storage = db, available_instances = available, created = 0, tries = 0\<rparr>
      in if users = [] then (None, s0)
         else if available = [] then (None, s0)
         else borrowings_loop rnd count users s0)"

section \<open>State predicates\<close>

text \<open>Every stored Book has \<open>0 \<le> available_copies \<le> total_copies\<close>.\<close>

definition books_in_range :: "database \<Rightarrow> bool" where
  "books_in_range db =
     (\<forall>k r. Book_rows db k = Some r \<longrightarrow>
        0 \<le> available_copies r \<and> available_copies r \<le> total_copies r)"

text \<open>The keys of the stored instances that are available.\<close>

definition available_ids :: "database \<Rightarrow> nat set" where
  "available_ids db =
     {j. j < BookInstance_seq db \<and>
         (case BookInstance_rows db j of None \<Rightarrow> False | Some r \<Rightarrow> is_available r)}"

section \<open>Example inputs\<close>

text \<open>
  A storage with one user (key 1) and one Book of two copies, both available, and two
  random sources: one whose every borrowing is marked returned, one whose borrowings are
  all kept. Both always pick the first candidate and the first user, a borrow time of
  1000 seconds, 7 days to the due date, and read the clock at 2000 seconds.
\<close>

definition two_copies :: database where
  "two_copies =
     run [Create_User, Create_Book 2 2, Create_BookInstance 1 good, Create_BookInstance 1 fair]"

definition draws_returned :: "nat \<Rightarrow> draw" where
  "draws_returned t =
     \<lparr>pick_instance = 0, pick_user = 0, drawn_borrow_dt = 1000, drawn_days = 7,
      drawn_returned = True, drawn_now = 2000\<rparr>"

definition draws_kept :: "nat \<Rightarrow> draw" where
  "draws_kept t =
     \<lparr>pick_instance = 0, pick_user = 0, drawn_borrow_dt = 1000, drawn_days = 7,
      drawn_returned = False, drawn_now = 2000\<rparr>"

text \<open>
  Smaller storages, each with the one user of key 1. In \<open>shelved\<close> a Book of two copies
  has its first instance, available; in \<open>lent\<close> the user has borrowed it, under the
  Borrowing of key 1. In \<open>one_of_two\<close> a Book created with one copy has two instances,
  both available; in \<open>overbooked\<close> the first of them is borrowed, which leaves the Book
  with no available copy and the second instance available. In \<open>resaved\<close> a Book of
  one copy has its instance borrowed, and its counts are then saved again as 1 and 1. In
  \<open>unknown_borrower\<close> no user is stored, and the instance is borrowed for the user key 7.
\<close>

definition first_copy :: "bool \<Rightarrow> BookInstance" where
  "first_copy a =
     \<lparr>BookInstance_id = Some 1, book = Related (Some 1) None, inventory_number = ''001-0001'',
      condition = good, is_available = a\<rparr>"

definition second_copy :: BookInstance where
  "second_copy =
     \<lparr>BookInstance_id = Some 2, book = Related (Some 1) None, inventory_number = ''001-0002'',
      condition = fair, is_available = True\<rparr>"

definition first_borrowing :: Borrowing where
  "first_borrowing =
     \<lparr>pk = Some 1, book_instance = Related (Some 1) None, borrower = 1, borrow_date = 0,
      due_date = 14, return_date = None, is_returned = False, fine = 0\<rparr>"

definition shelved :: database where
  "shelved = run [Create_User, Create_Book 2 2, Create_BookInstance 1 good]"

definition lent :: database where
  "lent = run [Create_User, Create_Book 2 2, Create_BookInstance 1 good,
               Create_Borrowing 1 1 0 14]"

definition one_of_two :: database where
  "one_of_two = run [Create_User, Create_Book 1 1, Create_BookInstance 1 good,
                     Create_BookInstance 1 fair]"

definition overbooked :: database where
  "overbooked = run [Create_User, Create_Book 1 1, Create_BookInstance 1 good,
                     Create_BookInstance 1 fair, Create_Borrowing 1 1 0 14]"

definition resaved :: database where
  "resaved = run [Create_User, Create_Book 1 1, Create_BookInstance 1 good,
                  Create_Borrowing 1 1 0 14, Save_Book 1 1 1]"

definition unknown_borrower :: database where
  "unknown_borrower = run [Create_Book 2 2, Create_BookInstance 1 good,
                           Create_Borrowing 1 7 0 14]"

text \<open>
  A Borrowing stored under the key 0: it is created with \<open>id=0\<close> for the first copy of
  \<open>shelved\<close>. \<open>at_line_125\<close> is the Borrowing object and the storage that
  \<open>mark_as_returned\<close>, called at time 50 on that Borrowing as fetched, has when it
  reaches its last line, \<open>self.save()\<close>.
\<close>

definition key_zero :: database where
  "key_zero =
     snd (snd (Borrowing_save ((new_Borrowing (first_copy True) 1 0 14 False 0)\<lparr>pk := Some 0\<rparr>)
                 shelved))"

definition at_line_125 :: "Borrowing \<times> database" where
  "at_line_125 =
     (let self1 = (the (fetch_Borrowing key_zero 0))\<lparr>is_returned := True, return_date := Some 50\<rparr>;
          inst1 = (the (fetch_BookInstance key_zero 1))\<lparr>is_available := True\<rparr>;
          bk = the (fetch_Book key_zero 1);
          (e1, bk', db1) = Book_save (bk\<lparr>available_copies := available_copies bk + 1\<rparr>) key_zero;
          (e2, inst', db2) = BookInstance_save (set_book inst1 bk') db1
      in (set_book_instance self1 inst', db2))"

text \<open>
  An instance has an open borrowing when some stored Borrowing of it is not returned.
  In a consistent storage the unavailable instances are those with an open borrowing,
  no instance has two open borrowings, the keys in use are below the next automatic
  key, the key 0 is neither used nor next for a Borrowing, and every Borrowing is of a
  stored instance and of a stored user.
\<close>

definition open_borrowing :: "database \<Rightarrow> nat \<Rightarrow> bool" where
  "open_borrowing db i =
     (\<exists>k b. Borrowing_rows db k = Some b \<and> rel_id (book_instance b) = Some i \<and>
            \<not> is_returned b)"

definition borrowings_consistent :: "database \<Rightarrow> bool" where
  "borrowings_consistent db =
     ((\<forall>i r. BookInstance_rows db i = Some r \<longrightarrow> (\<not> is_available r) = open_borrowing db i) \<and>
      (\<forall>k k' b b'. Borrowing_rows db k = Some b \<and> Borrowing_rows db k' = Some b' \<and>
          rel_id (book_instance b) = rel_id (book_instance b') \<and>
          \<not> is_returned b \<and> \<not> is_returned b' \<longrightarrow> k = k') \<and>
      (\<forall>k b. Borrowing_rows db k = Some b \<longrightarrow>
          0 < k \<and> k < Borrowing_seq db \<and>
          (\<exists>i. rel_id (book_instance b) = Some i \<and> BookInstance_rows db i \<noteq> None)) \<and>
      (\<forall>i r. BookInstance_rows db i = Some r \<longrightarrow> i < BookInstance_seq db) \<and>
      0 < Borrowing_seq db \<and>
      (\<forall>k b. Borrowing_rows db k = Some b \<longrightarrow> borrower b \<in> set (User_ids db)))"

text \<open>
  The borrowers of a sequence of operations are known when every Borrowing it creates is
  for a user who is stored at that point of the sequence.
\<close>

fun borrowers_known :: "database \<Rightarrow> op list \<Rightarrow> bool" where
  "borrowers_known db [] = True"
| "borrowers_known db (x # xs) =
     ((case x of Create_Borrowing i u bd dd \<Rightarrow> u \<in> set (User_ids db) | _ \<Rightarrow> True) \<and>
      borrowers_known (step db x) xs)"

text \<open>The keys of the stored Borrowings are below the next automatic key.\<close>

definition keys_in_sequence :: "database \<Rightarrow> bool" where
  "keys_in_sequence db = (\<forall>k b. Borrowing_rows db k = Some b \<longrightarrow> k < Borrowing_seq db)"

text \<open>
  A sequence of operations: a user, a Book of two copies and its two instances are
  created, the user borrows both instances, and the second is returned.
\<close>

definition borrow_and_return :: "op list" where
  "borrow_and_return =
     [Create_User, Create_Book 2 2, Create_BookInstance 1 good, Create_BookInstance 1 fair,
      Create_Borrowing 1 1 0 14, Create_Borrowing 2 1 0 14, Mark_Returned 2 20]"

text \<open>
  An instance row carries the number \<open>n\<close> of book \<open>b\<close> when it belongs to \<open>b\<close> and its
  inventory number is the one \<open>BookInstance.save\<close> writes for \<open>b\<close> and \<open>n\<close>. The numbers of
  a storage are in sequence when every instance row carries such a number, under a key
  below the next automatic key, and the numbers of one book grow with the keys.
\<close>

definition has_number :: "BookInstance \<Rightarrow> nat \<Rightarrow> int \<Rightarrow> bool" where
  "has_number r b n =
     (rel_id (book r) = Some b \<and> 1 \<le> n \<and>
      inventory_number r = format_d 3 (int b) @ ''-'' @ format_d 4 n)"

definition numbers_in_sequence :: "database \<Rightarrow> bool" where
  "numbers_in_sequence db =
     ((\<forall>i r. BookInstance_rows db i = Some r \<longrightarrow>
         i < BookInstance_seq db \<and> (\<exists>b n. has_number r b n)) \<and>
      (\<forall>i j r r' b n m.
         BookInstance_rows db i = Some r \<and> BookInstance_rows db j = Some r' \<and>
         has_number r b n \<and> has_number r' b m \<and> i < j \<longrightarrow> n < m))"

section \<open>Properties\<close>

subsection \<open>Single steps of the storage\<close>

lemma Book_id_upd_same [simp]: "Book_id bk = Some b \<Longrightarrow> bk\<lparr>Book_id := Some b\<rparr> = bk"
  by (cases bk) simp

lemma BookInstance_id_upd_same [simp]:
  "BookInstance_id inst = Some i \<Longrightarrow> inst\<lparr>BookInstance_id := Some i\<rparr> = inst"
  by (cases inst) simp

lemma pk_upd_same [simp]: "pk self = Some k \<Longrightarrow> self\<lparr>pk := Some k\<rparr> = self"
  by (cases self) simp

lemma fetch_BookInstance_SomeD:
  "fetch_BookInstance db i = Some inst \<Longrightarrow>
     BookInstance_id inst = Some i \<and> cached (book inst) = None \<and>
     (\<exists>r. BookInstance_rows db i = Some r \<and> inventory_number inst = inventory_number r \<and>
          is_available inst = is_available r \<and> rel_id (book inst) = rel_id (book r) \<and>
          condition inst = condition r)"
  by (auto simp add: fetch_BookInstance_def uncache_def)

lemma fetch_Borrowing_SomeD:
  "fetch_Borrowing db k = Some self \<Longrightarrow> pk self = Some k \<and> cached (book_instance self) = None"
  by (auto simp add: fetch_Borrowing_def uncache_def split: option.splits if_splits)

lemma fetch_Borrowing_fine: "fetch_Borrowing db k = Some self \<Longrightarrow> fine_fits (fine self)"
  by (auto simp add: fetch_Borrowing_def split: option.splits if_splits)

lemma fetch_Book_SomeD: "fetch_Book db b = Some bk \<Longrightarrow> Book_id bk = Some b"
  by (auto simp add: fetch_Book_def)

lemma get_book_instance_fetch:
  "cached (book_instance self) = None \<Longrightarrow> rel_id (book_instance self) = Some i \<Longrightarrow>
   fetch_BookInstance db i = Some inst \<Longrightarrow> get_book_instance self db = Inr inst"
  by (simp add: get_book_instance_def)

lemma get_book_fetch:
  "cached (book inst) = None \<Longrightarrow> rel_id (book inst) = Some b \<Longrightarrow>
   fetch_Book db b = Some bk \<Longrightarrow> get_book inst db = Inr bk"
  by (simp add: get_book_def)

lemma Book_save_success:
  "0 \<le> total_copies bk \<Longrightarrow> 0 \<le> available_copies bk \<Longrightarrow> Book_id bk = Some b \<Longrightarrow>
   Book_save bk db =
     (None, bk\<lparr>available_copies := min (available_copies bk) (total_copies bk)\<rparr>,
      db\<lparr>Book_rows :=
           (Book_rows db)(b \<mapsto> bk\<lparr>available_copies := min (available_copies bk) (total_copies bk)\<rparr>),
         Book_seq := max (Book_seq db) (Suc b)\<rparr>)"
  by (simp add: Book_save_def super_save_Book_def min_def Let_def)

lemma inventory_number_taken_cong:
  "BookInstance_rows db' = BookInstance_rows db \<Longrightarrow> BookInstance_seq db' = BookInstance_seq db \<Longrightarrow>
   inventory_number_taken db' = inventory_number_taken db"
  by (simp add: inventory_number_taken_def fun_eq_iff)

lemma BookInstance_save_success:
  "inventory_number inst \<noteq> [] \<Longrightarrow> BookInstance_id inst = Some i \<Longrightarrow>
   book inst = Related (Some b) (Some bk) \<Longrightarrow> Book_id bk = Some b \<Longrightarrow>
   Book_rows db b \<noteq> None \<Longrightarrow>
   \<not> inventory_number_taken db i (inventory_number inst) \<Longrightarrow>
   BookInstance_save inst db =
     (None, inst,
      db\<lparr>BookInstance_rows := (BookInstance_rows db)(i \<mapsto> inst\<lparr>book := Related (Some b) None\<rparr>),
         BookInstance_seq := max (BookInstance_seq db) (Suc i)\<rparr>)"
  by (auto simp add: BookInstance_save_def super_save_BookInstance_def prepare_related_def
      uncache_def stored_key_def Let_def)

lemma super_save_Borrowing_success:
  "book_instance self = Related (Some i) (Some inst) \<Longrightarrow> BookInstance_id inst = Some i \<Longrightarrow>
   BookInstance_rows db i \<noteq> None \<Longrightarrow> borrower self \<in> set (User_ids db) \<Longrightarrow>
   k = (case pk self of None \<Rightarrow> Borrowing_seq db | Some k \<Rightarrow> k) \<Longrightarrow>
   super_save_Borrowing self db =
     (None, self\<lparr>pk := Some k\<rparr>,
      db\<lparr>Borrowing_rows :=
           (Borrowing_rows db)(k \<mapsto> self\<lparr>pk := Some k, book_instance := Related (Some i) None\<rparr>),
         Borrowing_seq := max (Borrowing_seq db) (Suc k)\<rparr>)"
  by (auto simp add: super_save_Borrowing_def prepare_related_def uncache_def stored_key_def
      Let_def)

subsection \<open>Borrowing an unavailable copy\<close>

text \<open>
  C1. Creating a Borrowing against a BookInstance whose \<open>is_available\<close> is false raises
  the ValueError "This book copy is not available!" (InstanceUnavailable), and nothing
  has changed when it does: the storage is the one before the call, and the object
  left behind is the unsaved Borrowing holding the instance as it was passed in.
\<close>

theorem CreateBorrowing_unavailable:
  assumes "\<not> is_available inst"
  shows "Borrowing_objects_create inst u bd dd ret f db =
           (Some InstanceUnavailable, new_Borrowing inst u bd dd ret f, db)"
  using assms
  by (simp add: Borrowing_objects_create_def Borrowing_save_def new_Borrowing_def
      get_book_instance_def set_book_instance_def)

theorem CreateBorrowing_unavailable_witness:
  "\<not> is_available
       \<lparr>BookInstance_id = Some 1, book = Related (Some 1) None, inventory_number = ''001-0001'',
        condition = good, is_available = False\<rparr> \<and>
   Borrowing_objects_create
       \<lparr>BookInstance_id = Some 1, book = Related (Some 1) None, inventory_number = ''001-0001'',
        condition = good, is_available = False\<rparr> 7 100 114 False 0 empty_database =
     (Some InstanceUnavailable,
      new_Borrowing
       \<lparr>BookInstance_id = Some 1, book = Related (Some 1) None, inventory_number = ''001-0001'',
        condition = good, is_available = False\<rparr> 7 100 114 False 0,
      empty_database)"
  using CreateBorrowing_unavailable
    [of "\<lparr>BookInstance_id = Some 1, book = Related (Some 1) None,
          inventory_number = ''001-0001'', condition = good, is_available = False\<rparr>"
        7 100 114 False 0 empty_database]
  by simp

subsection \<open>Saving a Borrowing that has a key\<close>

text \<open>
  With a key other than 0, \<open>Borrowing.save\<close> goes straight to \<open>super().save()\<close>: every
  BookInstance row and every Book row stays as it was, and the instance object the
  Borrowing holds is not touched.
\<close>

lemma Borrowing_save_truthy_key_frame:
  assumes "pk self = Some k" and "k \<noteq> 0"
  shows "(case Borrowing_save self db of
            (e, self', db') \<Rightarrow>
              Book_rows db' = Book_rows db \<and> BookInstance_rows db' = BookInstance_rows db \<and>
              (cached (book_instance self') = None \<or>
               cached (book_instance self') = cached (book_instance self)))"
  using assms
  by (auto simp add: Borrowing_save_def super_save_Borrowing_def prepare_related_def Let_def
      split: sum.splits option.splits if_splits)

text \<open>The call that \<open>mark_as_returned\<close> makes in its last line, when nothing before it raised.\<close>

lemma mark_as_returned_last_line:
  assumes "\<not> is_returned self"
    and "get_book_instance (self\<lparr>is_returned := True, return_date := Some now\<rparr>) db = Inr inst"
    and "get_book (inst\<lparr>is_available := True\<rparr>) db = Inr bk"
    and "fst (Book_save (bk\<lparr>available_copies := available_copies bk + 1\<rparr>) db) = None"
    and "fst (BookInstance_save
           (set_book (inst\<lparr>is_available := True\<rparr>)
              (fst (snd (Book_save (bk\<lparr>available_copies := available_copies bk + 1\<rparr>) db))))
           (snd (snd (Book_save (bk\<lparr>available_copies := available_copies bk + 1\<rparr>) db)))) = None"
  shows "mark_as_returned self now db =
     Borrowing_save
       (set_book_instance (self\<lparr>is_returned := True, return_date := Some now\<rparr>)
          (fst (snd (BookInstance_save
             (set_book (inst\<lparr>is_available := True\<rparr>)
                (fst (snd (Book_save (bk\<lparr>available_copies := available_copies bk + 1\<rparr>) db))))
             (snd (snd (Book_save (bk\<lparr>available_copies := available_copies bk + 1\<rparr>) db)))))))
       (snd (snd (BookInstance_save
             (set_book (inst\<lparr>is_available := True\<rparr>)
                (fst (snd (Book_save (bk\<lparr>available_copies := available_copies bk + 1\<rparr>) db))))
             (snd (snd (Book_save (bk\<lparr>available_copies := available_copies bk + 1\<rparr>) db))))))"
  using assms by (simp add: mark_as_returned_def Let_def case_prod_beta)

text \<open>
  C9. A Borrowing stored under the key 0 has a primary key, and saving it changes its
  instance and its book: \<open>not self.pk\<close> is true of the key 0, so the save takes the
  branch that the code marks \<open># new borrowing\<close>. The Borrowing of \<open>key_zero\<close> is stored
  under the key 0; marking it returned at time 50 comes to \<open>self.save()\<close> with the
  Borrowing and the storage of \<open>at_line_125\<close>, where the Borrowing row is stored, the
  instance row is available and the Book has 2 available copies; the save returns
  without an exception and leaves the instance row unavailable and the Book with 1
  available copy.
\<close>

theorem Borrowing_save_key_zero:
  "fetch_Borrowing key_zero 0 = Some (first_borrowing\<lparr>pk := Some 0\<rparr>) \<and>
   mark_as_returned (first_borrowing\<lparr>pk := Some 0\<rparr>) 50 key_zero =
     Borrowing_save (fst at_line_125) (snd at_line_125) \<and>
   pk (fst at_line_125) = Some 0 \<and>
   fetch_Borrowing (snd at_line_125) 0 = Some (first_borrowing\<lparr>pk := Some 0\<rparr>) \<and>
   fetch_BookInstance (snd at_line_125) 1 = Some (first_copy True) \<and>
   map_option available_copies (fetch_Book (snd at_line_125) 1) = Some 2 \<and>
   fst (Borrowing_save (fst at_line_125) (snd at_line_125)) = None \<and>
   fetch_BookInstance (snd (snd (Borrowing_save (fst at_line_125) (snd at_line_125)))) 1 =
     Some (first_copy False) \<and>
   map_option available_copies
     (fetch_Book (snd (snd (Borrowing_save (fst at_line_125) (snd at_line_125)))) 1) = Some 1"
proof -
  have f0: "fetch_Borrowing key_zero 0 = Some (first_borrowing\<lparr>pk := Some 0\<rparr>)"
    by code_simp
  from f0 have tb: "the (fetch_Borrowing key_zero 0) = first_borrowing\<lparr>pk := Some 0\<rparr>"
    by simp
  have nr: "\<not> is_returned (first_borrowing\<lparr>pk := Some 0\<rparr>)"
    by (simp add: first_borrowing_def)
  have g1: "get_book_instance
       (first_borrowing\<lparr>pk := Some 0, is_returned := True, return_date := Some 50\<rparr>) key_zero =
     Inr (the (fetch_BookInstance key_zero 1))"
    by code_simp
  have g2: "get_book ((the (fetch_BookInstance key_zero 1))\<lparr>is_available := True\<rparr>) key_zero =
     Inr (the (fetch_Book key_zero 1))"
    by code_simp
  have e1: "fst (Book_save ((the (fetch_Book key_zero 1))
        \<lparr>available_copies := available_copies (the (fetch_Book key_zero 1)) + 1\<rparr>) key_zero) = None"
    by code_simp
  have e2: "fst (BookInstance_save
      (set_book ((the (fetch_BookInstance key_zero 1))\<lparr>is_available := True\<rparr>)
         (fst (snd (Book_save ((the (fetch_Book key_zero 1))
            \<lparr>available_copies := available_copies (the (fetch_Book key_zero 1)) + 1\<rparr>) key_zero))))
      (snd (snd (Book_save ((the (fetch_Book key_zero 1))
            \<lparr>available_copies := available_copies (the (fetch_Book key_zero 1)) + 1\<rparr>) key_zero)))) = None"
    by code_simp
  have m: "mark_as_returned (first_borrowing\<lparr>pk := Some 0\<rparr>) 50 key_zero =
     Borrowing_save (fst at_line_125) (snd at_line_125)"
    unfolding at_line_125_def Let_def case_prod_beta fst_conv snd_conv tb
    by (rule mark_as_returned_last_line[OF nr g1 g2 e1 e2])
  have r: "pk (fst at_line_125) = Some 0 \<and>
   fetch_Borrowing (snd at_line_125) 0 = Some (first_borrowing\<lparr>pk := Some 0\<rparr>) \<and>
   fetch_BookInstance (snd at_line_125) 1 = Some (first_copy True) \<and>
   map_option available_copies (fetch_Book (snd at_line_125) 1) = Some 2 \<and>
   fst (Borrowing_save (fst at_line_125) (snd at_line_125)) = None \<and>
   fetch_BookInstance (snd (snd (Borrowing_save (fst at_line_125) (snd at_line_125)))) 1 =
     Some (first_copy False) \<and>
   map_option available_copies
     (fetch_Book (snd (snd (Borrowing_save (fst at_line_125) (snd at_line_125)))) 1) = Some 1"
    by code_simp
  show ?thesis using f0 m r by blast
qed

subsection \<open>The branches of the methods\<close>

lemma super_save_Book_cases [consumes 1, case_names refused written]:
  assumes run: "super_save_Book bk db = (e, bk', db')"
  obtains
    (refused) "total_copies bk < 0 \<or> available_copies bk < 0" "e = Some IntegrityError"
      "bk' = bk" "db' = db"
  | (written) k where "0 \<le> total_copies bk" "0 \<le> available_copies bk" "e = None"
      "k = (case Book_id bk of None \<Rightarrow> Book_seq db | Some k \<Rightarrow> k)"
      "bk' = bk\<lparr>Book_id := Some k\<rparr>"
      "db' = db\<lparr>Book_rows := (Book_rows db)(k \<mapsto> bk'), Book_seq := max (Book_seq db) (Suc k)\<rparr>"
proof (cases "total_copies bk < 0 \<or> available_copies bk < 0")
  case True
  with run have "e = Some IntegrityError" "bk' = bk" "db' = db"
    by (simp_all add: super_save_Book_def)
  with True show ?thesis by (rule refused)
next
  case False
  define k where "k = (case Book_id bk of None \<Rightarrow> Book_seq db | Some k \<Rightarrow> k)"
  from run False have "e = None" "bk' = bk\<lparr>Book_id := Some k\<rparr>"
    "db' = db\<lparr>Book_rows := (Book_rows db)(k \<mapsto> bk'), Book_seq := max (Book_seq db) (Suc k)\<rparr>"
    by (auto simp add: super_save_Book_def Let_def k_def)
  with False k_def show ?thesis by (intro written[of k]) simp_all
qed

lemma Book_save_cases [consumes 1, case_names refused written]:
  assumes run: "Book_save bk db = (e, bk', db')"
  obtains
    (refused) "e = Some IntegrityError" "db' = db"
  | (written) k where "e = None" "0 \<le> available_copies bk'"
      "available_copies bk' \<le> total_copies bk'" "total_copies bk' = total_copies bk"
      "available_copies bk' = min (available_copies bk) (total_copies bk)"
      "k = (case Book_id bk of None \<Rightarrow> Book_seq db | Some k \<Rightarrow> k)" "Book_id bk' = Some k"
      "db' = db\<lparr>Book_rows := (Book_rows db)(k \<mapsto> bk'), Book_seq := max (Book_seq db) (Suc k)\<rparr>"
proof -
  define c where "c = (if available_copies bk > total_copies bk
        then bk\<lparr>available_copies := total_copies bk\<rparr> else bk)"
  have c: "total_copies c = total_copies bk" "available_copies c = min (available_copies bk) (total_copies bk)"
    "Book_id c = Book_id bk"
    by (simp_all add: c_def min_def)
  from run have "super_save_Book c db = (e, bk', db')" by (simp add: Book_save_def c_def)
  then show ?thesis
  proof (cases rule: super_save_Book_cases)
    case refused
    then show ?thesis using that(1) by blast
  next
    case (written k)
    show ?thesis
      by (rule that(2)[of k]) (use written c in simp_all)
  qed
qed

lemma Borrowing_save_cases [consumes 1, case_names existing no_instance unavailable no_book
    book_failed instance_failed saved]:
  assumes run: "Borrowing_save self db = (e, self', db')"
  obtains
    (existing) "\<not> (pk self = None \<or> pk self = Some 0)"
      "super_save_Borrowing self db = (e, self', db')"
  | (no_instance) err where "pk self = None \<or> pk self = Some 0"
      "get_book_instance self db = Inl err" "e = Some err" "self' = self" "db' = db"
  | (unavailable) inst where "pk self = None \<or> pk self = Some 0"
      "get_book_instance self db = Inr inst" "\<not> is_available inst"
      "e = Some InstanceUnavailable" "self' = set_book_instance self inst" "db' = db"
  | (no_book) inst err where "pk self = None \<or> pk self = Some 0"
      "get_book_instance self db = Inr inst" "is_available inst"
      "get_book (inst\<lparr>is_available := False\<rparr>) db = Inl err" "e = Some err" "db' = db"
  | (book_failed) inst bk err bk' where "pk self = None \<or> pk self = Some 0"
      "get_book_instance self db = Inr inst" "is_available inst"
      "get_book (inst\<lparr>is_available := False\<rparr>) db = Inr bk"
      "Book_save (bk\<lparr>available_copies := available_copies bk - 1\<rparr>) db = (Some err, bk', db')"
      "e = Some err"
  | (instance_failed) inst bk bk' db1 err inst' where "pk self = None \<or> pk self = Some 0"
      "get_book_instance self db = Inr inst" "is_available inst"
      "get_book (inst\<lparr>is_available := False\<rparr>) db = Inr bk"
      "Book_save (bk\<lparr>available_copies := available_copies bk - 1\<rparr>) db = (None, bk', db1)"
      "BookInstance_save (set_book (inst\<lparr>is_available := False\<rparr>) bk') db1 = (Some err, inst', db')"
      "e = Some err"
  | (saved) inst bk bk' db1 inst' db2 where "pk self = None \<or> pk self = Some 0"
      "get_book_instance self db = Inr inst" "is_available inst"
      "get_book (inst\<lparr>is_available := False\<rparr>) db = Inr bk"
      "Book_save (bk\<lparr>available_copies := available_copies bk - 1\<rparr>) db = (None, bk', db1)"
      "BookInstance_save (set_book (inst\<lparr>is_available := False\<rparr>) bk') db1 = (None, inst', db2)"
      "super_save_Borrowing (set_book_instance self inst') db2 = (e, self', db')"
proof (cases "pk self = None \<or> pk self = Some 0")
  case False
  with run have "super_save_Borrowing self db = (e, self', db')"
    by (simp add: Borrowing_save_def)
  with False show ?thesis by (rule existing)
next
  case new: True
  show ?thesis
  proof (cases "get_book_instance self db")
    case (Inl err)
    with run new show ?thesis by (intro no_instance[of err]) (auto simp add: Borrowing_save_def)
  next
    case (Inr inst)
    show ?thesis
    proof (cases "is_available inst")
      case False
      with run new Inr show ?thesis
        by (intro unavailable[of inst]) (auto simp add: Borrowing_save_def)
    next
      case av: True
      show ?thesis
      proof (cases "get_book (inst\<lparr>is_available := False\<rparr>) db")
        case (Inl err)
        with run new Inr av show ?thesis
          by (intro no_book[of inst err]) (auto simp add: Borrowing_save_def Let_def)
      next
        case bk: (Inr bk)
        obtain e1 bk' db1 where
          bs: "Book_save (bk\<lparr>available_copies := available_copies bk - 1\<rparr>) db = (e1, bk', db1)"
          by (metis prod_cases3)
        show ?thesis
        proof (cases e1)
          case (Some err)
          with run new Inr av bk bs show ?thesis
            by (intro book_failed[of inst bk err bk']) (auto simp add: Borrowing_save_def Let_def)
        next
          case bok: None
          obtain e2 inst' db2 where
            isv: "BookInstance_save (set_book (inst\<lparr>is_available := False\<rparr>) bk') db1 = (e2, inst', db2)"
            by (metis prod_cases3)
          show ?thesis
          proof (cases e2)
            case (Some err)
            with run new Inr av bk bs bok isv show ?thesis
              by (intro instance_failed[of inst bk bk' db1 err inst'])
                (auto simp add: Borrowing_save_def Let_def)
          next
            case None
            with run new Inr av bk bs bok isv show ?thesis
              by (intro saved[of inst bk bk' db1 inst' db2])
                (auto simp add: Borrowing_save_def Let_def)
          qed
        qed
      qed
    qed
  qed
qed

lemma mark_as_returned_cases [consumes 1, case_names noop no_instance no_book book_failed
    instance_failed saved]:
  assumes run: "mark_as_returned self now db = (e, self', db')"
  obtains
    (noop) "is_returned self" "e = None" "self' = self" "db' = db"
  | (no_instance) err where "\<not> is_returned self"
      "get_book_instance (self\<lparr>is_returned := True, return_date := Some now\<rparr>) db = Inl err"
      "e = Some err" "self' = self\<lparr>is_returned := True, return_date := Some now\<rparr>" "db' = db"
  | (no_book) inst err where "\<not> is_returned self"
      "get_book_instance (self\<lparr>is_returned := True, return_date := Some now\<rparr>) db = Inr inst"
      "get_book (inst\<lparr>is_available := True\<rparr>) db = Inl err" "e = Some err" "db' = db"
  | (book_failed) inst bk err bk' where "\<not> is_returned self"
      "get_book_instance (self\<lparr>is_returned := True, return_date := Some now\<rparr>) db = Inr inst"
      "get_book (inst\<lparr>is_available := True\<rparr>) db = Inr bk"
      "Book_save (bk\<lparr>available_copies := available_copies bk + 1\<rparr>) db = (Some err, bk', db')"
      "e = Some err"
  | (instance_failed) inst bk bk' db1 err inst' where "\<not> is_returned self"
      "get_book_instance (self\<lparr>is_returned := True, return_date := Some now\<rparr>) db = Inr inst"
      "get_book (inst\<lparr>is_available := True\<rparr>) db = Inr bk"
      "Book_save (bk\<lparr>available_copies := available_copies bk + 1\<rparr>) db = (None, bk', db1)"
      "BookInstance_save (set_book (inst\<lparr>is_available := True\<rparr>) bk') db1 = (Some err, inst', db')"
      "e = Some err"
  | (saved) inst bk bk' db1 inst' db2 where "\<not> is_returned self"
      "get_book_instance (self\<lparr>is_returned := True, return_date := Some now\<rparr>) db = Inr inst"
      "get_book (inst\<lparr>is_available := True\<rparr>) db = Inr bk"
      "Book_save (bk\<lparr>available_copies := available_copies bk + 1\<rparr>) db = (None, bk', db1)"
      "BookInstance_save (set_book (inst\<lparr>is_available := True\<rparr>) bk') db1 = (None, inst', db2)"
      "Borrowing_save
         (set_book_instance (self\<lparr>is_returned := True, return_date := Some now\<rparr>) inst') db2 =
       (e, self', db')"
proof (cases "is_returned self")
  case True
  with run show ?thesis by (intro noop) (auto simp add: mark_as_returned_def)
next
  case nr: False
  define self1 where "self1 = self\<lparr>is_returned := True, return_date := Some now\<rparr>"
  note d = mark_as_returned_def Let_def self1_def
  show ?thesis
  proof (cases "get_book_instance self1 db")
    case (Inl err)
    with run nr show ?thesis by (intro no_instance[of err]) (auto simp add: d)
  next
    case (Inr inst)
    show ?thesis
    proof (cases "get_book (inst\<lparr>is_available := True\<rparr>) db")
      case (Inl err)
      with run nr Inr show ?thesis by (intro no_book[of inst err]) (auto simp add: d)
    next
      case bk: (Inr bk)
      obtain e1 bk' db1 where
        bs: "Book_save (bk\<lparr>available_copies := available_copies bk + 1\<rparr>) db = (e1, bk', db1)"
        by (metis prod_cases3)
      show ?thesis
      proof (cases e1)
        case (Some err)
        with run nr Inr bk bs show ?thesis
          by (intro book_failed[of inst bk err bk']) (auto simp add: d)
      next
        case bok: None
        obtain e2 inst' db2 where
          isv: "BookInstance_save (set_book (inst\<lparr>is_available := True\<rparr>) bk') db1 = (e2, inst', db2)"
          by (metis prod_cases3)
        show ?thesis
        proof (cases e2)
          case (Some err)
          with run nr Inr bk bs bok isv show ?thesis
            by (intro instance_failed[of inst bk bk' db1 err inst']) (auto simp add: d)
        next
          case None
          with run nr Inr bk bs bok isv show ?thesis
            by (intro saved[of inst bk bk' db1 inst' db2]) (auto simp add: d)
        qed
      qed
    qed
  qed
qed

lemma prepare_related_Inr:
  assumes "prepare_related pk_of r = Inr r'"
  shows "(rel_id r \<noteq> None \<longrightarrow> rel_id r' = rel_id r) \<and>
         (rel_id r = None \<longrightarrow> rel_id r' = (case cached r of None \<Rightarrow> None | Some obj \<Rightarrow> pk_of obj)) \<and>
         (cached r' = None \<or> cached r' = cached r)"
  using assms
  by (cases r; cases "cached r"; cases "rel_id r")
    (auto simp add: prepare_related_def Let_def split: option.splits if_splits)

lemma super_save_BookInstance_cases [consumes 1, case_names refused written]:
  assumes run: "super_save_BookInstance self db = (e, self', db')"
  obtains
    (refused) "e \<noteq> None" "db' = db"
  | (written) k r where "e = None"
      "k = (case BookInstance_id self of None \<Rightarrow> BookInstance_seq db | Some k \<Rightarrow> k)"
      "db' = db\<lparr>BookInstance_rows := (BookInstance_rows db)(k \<mapsto> r),
                 BookInstance_seq := max (BookInstance_seq db) (Suc k)\<rparr>"
      "r = self'\<lparr>book := uncache (book self')\<rparr>"
      "self' = self\<lparr>book := book self', BookInstance_id := Some k\<rparr>"
      "prepare_related Book_id (book self) = Inr (book self')"
      "rel_id (book self') \<noteq> None"
      "\<not> inventory_number_taken db k (inventory_number self)"
      "stored_key (Book_rows db) (rel_id (book self'))"
proof (cases "prepare_related Book_id (book self)")
  case (Inl err)
  with run have "e \<noteq> None" "db' = db" by (auto simp add: super_save_BookInstance_def)
  then show ?thesis by (rule refused)
next
  case (Inr r0)
  define k where "k = (case BookInstance_id self of None \<Rightarrow> BookInstance_seq db | Some k \<Rightarrow> k)"
  show ?thesis
  proof (cases "\<not> stored_key (Book_rows db) (rel_id r0) \<or>
      inventory_number_taken db k (inventory_number self)")
    case True
    with run Inr have "e \<noteq> None" "db' = db"
      by (auto simp add: super_save_BookInstance_def Let_def k_def split: if_splits)
    then show ?thesis by (rule refused)
  next
    case False
    then have nn: "rel_id r0 \<noteq> None" by (auto simp add: stored_key_def split: option.splits)
    from False run Inr have e: "e = None" and s: "self' = self\<lparr>book := r0, BookInstance_id := Some k\<rparr>"
      and d: "db' = db\<lparr>BookInstance_rows := (BookInstance_rows db)(k \<mapsto> self'\<lparr>book := uncache r0\<rparr>),
                 BookInstance_seq := max (BookInstance_seq db) (Suc k)\<rparr>"
      by (auto simp add: super_save_BookInstance_def Let_def k_def)
    from s have b: "book self' = r0" by simp
    show ?thesis
      by (rule written[of k "self'\<lparr>book := uncache (book self')\<rparr>"])
        (use e s d b False nn Inr k_def in simp_all)
  qed
qed


lemma BookInstance_save_cases [consumes 1, case_names refused written]:
  assumes run: "BookInstance_save self db = (e, self', db')"
  obtains
    (refused) "e \<noteq> None" "db' = db"
  | (written) k r where "e = None"
      "k = (case BookInstance_id self of None \<Rightarrow> BookInstance_seq db | Some k \<Rightarrow> k)"
      "db' = db\<lparr>BookInstance_rows := (BookInstance_rows db)(k \<mapsto> r),
                 BookInstance_seq := max (BookInstance_seq db) (Suc k)\<rparr>"
      "r = self'\<lparr>book := uncache (book self')\<rparr>"
      "BookInstance_id self' = Some k"
      "is_available self' = is_available self" "condition self' = condition self"
      "rel_id (book self') \<noteq> None"
      "rel_id (book self) \<noteq> None \<longrightarrow> rel_id (book self') = rel_id (book self)"
      "\<not> inventory_number_taken db k (inventory_number self')"
      "inventory_number self \<noteq> [] \<longrightarrow> inventory_number self' = inventory_number self"
      "inventory_number self = [] \<longrightarrow>
         (\<exists>bk b num. get_book self db = Inr bk \<and> Book_id bk = Some b \<and>
            next_number db b = Inr num \<and>
            inventory_number self' = format_d 3 (int b) @ ''-'' @ format_d 4 num)"
proof -
  note R = refused and W = written
  have main: thesis
    if ss: "super_save_BookInstance x db = (e, self', db')"
      and x: "BookInstance_id x = BookInstance_id self" "is_available x = is_available self"
        "condition x = condition self" "rel_id (book x) = rel_id (book self)"
      and n1: "inventory_number self \<noteq> [] \<longrightarrow> inventory_number x = inventory_number self"
      and n2: "inventory_number self = [] \<longrightarrow>
         (\<exists>bk b num. get_book self db = Inr bk \<and> Book_id bk = Some b \<and>
            next_number db b = Inr num \<and>
            inventory_number x = format_d 3 (int b) @ ''-'' @ format_d 4 num)"
    for x
    using ss
  proof (cases rule: super_save_BookInstance_cases)
    case refused
    then show ?thesis by (rule R)
  next
    case (written k r)
    have f: "BookInstance_id self' = Some k" "is_available self' = is_available x"
      "condition self' = condition x" "inventory_number self' = inventory_number x"
      by (subst written(5), simp)+
    have g: "rel_id (book x) \<noteq> None \<longrightarrow> rel_id (book self') = rel_id (book x)"
      using prepare_related_Inr[OF written(6)] by simp
    show ?thesis
      by (rule W[of k r]) (use written f g x n1 n2 in simp_all)
  qed
  show ?thesis
  proof (cases "inventory_number self = []")
    case False
    with run have "super_save_BookInstance self db = (e, self', db')"
      by (simp add: BookInstance_save_def)
    then show ?thesis by (rule main) (use False in simp_all)
  next
    case emp: True
    show ?thesis
    proof (cases "get_book self db")
      case (Inl err)
      with run emp have "e \<noteq> None" "db' = db" by (auto simp add: BookInstance_save_def)
      then show ?thesis by (rule R)
    next
      case (Inr bk)
      show ?thesis
      proof (cases "Book_id bk")
        case None
        with run emp Inr have "e \<noteq> None" "db' = db"
          by (auto simp add: BookInstance_save_def Let_def)
        then show ?thesis by (rule R)
      next
        case (Some b)
        show ?thesis
        proof (cases "next_number db b")
          case (Inl err)
          with run emp Inr Some have "e \<noteq> None" "db' = db"
            by (auto simp add: BookInstance_save_def Let_def)
          then show ?thesis by (rule R)
        next
          case num: (Inr num)
          with run emp Inr Some have
            "super_save_BookInstance
               ((set_book self bk)\<lparr>inventory_number := format_d 3 (int b) @ ''-'' @ format_d 4 num\<rparr>)
               db = (e, self', db')"
            by (simp add: BookInstance_save_def Let_def)
          then show ?thesis
            by (rule main) (use emp Inr Some num in \<open>simp_all add: set_book_def\<close>)
        qed
      qed
    qed
  qed
qed

lemma super_save_Borrowing_cases [consumes 1, case_names refused written]:
  assumes run: "super_save_Borrowing self db = (e, self', db')"
  obtains
    (refused) "e \<noteq> None" "db' = db"
  | (written) k r where "e = None"
      "k = (case pk self of None \<Rightarrow> Borrowing_seq db | Some k \<Rightarrow> k)"
      "db' = db\<lparr>Borrowing_rows := (Borrowing_rows db)(k \<mapsto> r),
                 Borrowing_seq := max (Borrowing_seq db) (Suc k)\<rparr>"
      "r = self'\<lparr>book_instance := uncache (book_instance self')\<rparr>"
      "self' = self\<lparr>book_instance := book_instance self', pk := Some k\<rparr>"
      "prepare_related BookInstance_id (book_instance self) = Inr (book_instance self')"
      "rel_id (book_instance self') \<noteq> None"
      "stored_key (BookInstance_rows db) (rel_id (book_instance self'))"
      "borrower self \<in> set (User_ids db)"
proof (cases "prepare_related BookInstance_id (book_instance self)")
  case (Inl err)
  with run have "e \<noteq> None" "db' = db" by (auto simp add: super_save_Borrowing_def)
  then show ?thesis by (rule refused)
next
  case (Inr r0)
  define k where "k = (case pk self of None \<Rightarrow> Borrowing_seq db | Some k \<Rightarrow> k)"
  show ?thesis
  proof (cases "\<not> stored_key (BookInstance_rows db) (rel_id r0) \<or>
      borrower self \<notin> set (User_ids db)")
    case True
    with run Inr have "e \<noteq> None" "db' = db"
      by (auto simp add: super_save_Borrowing_def Let_def split: if_splits)
    then show ?thesis by (rule refused)
  next
    case False
    then have nn: "rel_id r0 \<noteq> None" by (auto simp add: stored_key_def split: option.splits)
    from False run Inr have e: "e = None" and s: "self' = self\<lparr>book_instance := r0, pk := Some k\<rparr>"
      and d: "db' = db\<lparr>Borrowing_rows := (Borrowing_rows db)(k \<mapsto> self'\<lparr>book_instance := uncache r0\<rparr>),
                 Borrowing_seq := max (Borrowing_seq db) (Suc k)\<rparr>"
      by (auto simp add: super_save_Borrowing_def Let_def k_def)
    from s have b: "book_instance self' = r0" by simp
    show ?thesis
      by (rule written[of k "self'\<lparr>book_instance := uncache (book_instance self')\<rparr>"])
        (use e s d b False nn Inr k_def in simp_all)
  qed
qed

subsection \<open>The copy counts of stored books\<close>

lemma Book_save_in_range:
  assumes "Book_save bk db = (e, bk', db')" and "books_in_range db"
  shows "books_in_range db'"
  using assms(1)
proof (cases rule: Book_save_cases)
  case refused
  with assms(2) show ?thesis by simp
next
  case (written k)
  with assms(2) show ?thesis by (simp add: books_in_range_def)
qed

lemma BookInstance_save_Book_rows:
  assumes "BookInstance_save self db = (e, self', db')"
  shows "Book_rows db' = Book_rows db"
  using assms by (cases rule: BookInstance_save_cases) simp_all

lemma super_save_Borrowing_Book_rows:
  assumes "super_save_Borrowing self db = (e, self', db')"
  shows "Book_rows db' = Book_rows db"
  using assms by (cases rule: super_save_Borrowing_cases) simp_all

lemma books_in_range_cong:
  "Book_rows db' = Book_rows db \<Longrightarrow> books_in_range db \<Longrightarrow> books_in_range db'"
  by (simp add: books_in_range_def)

lemma Borrowing_save_in_range:
  assumes "Borrowing_save self db = (e, self', db')" and inv: "books_in_range db"
  shows "books_in_range db'"
  using assms(1)
proof (cases rule: Borrowing_save_cases)
  case existing
  then show ?thesis using inv books_in_range_cong super_save_Borrowing_Book_rows by blast
next
  case (book_failed inst bk err bk')
  then show ?thesis using inv Book_save_in_range by blast
next
  case (instance_failed inst bk bk' db1 err inst')
  then show ?thesis
    using inv Book_save_in_range books_in_range_cong BookInstance_save_Book_rows by blast
next
  case (saved inst bk bk' db1 inst' db2)
  have "books_in_range db1" using saved(5) inv by (rule Book_save_in_range)
  then have "books_in_range db2"
    using books_in_range_cong[OF BookInstance_save_Book_rows[OF saved(6)]] by blast
  then show ?thesis
    using books_in_range_cong[OF super_save_Borrowing_Book_rows[OF saved(7)]] by blast
qed (use inv in simp_all)

lemma mark_as_returned_in_range:
  assumes "mark_as_returned self now db = (e, self', db')" and inv: "books_in_range db"
  shows "books_in_range db'"
  using assms(1)
proof (cases rule: mark_as_returned_cases)
  case (book_failed inst bk err bk')
  then show ?thesis using inv Book_save_in_range by blast
next
  case (instance_failed inst bk bk' db1 err inst')
  then show ?thesis
    using inv Book_save_in_range books_in_range_cong BookInstance_save_Book_rows by blast
next
  case (saved inst bk bk' db1 inst' db2)
  have "books_in_range db1" using saved(4) inv by (rule Book_save_in_range)
  then have "books_in_range db2"
    using books_in_range_cong[OF BookInstance_save_Book_rows[OF saved(5)]] by blast
  with saved(6) show ?thesis by (rule Borrowing_save_in_range)
qed (use inv in simp_all)

lemma step_in_range:
  assumes "books_in_range db"
  shows "books_in_range (step db x)"
proof (cases x)
  case Create_User
  then show ?thesis using assms by (simp add: books_in_range_def)
next
  case (Create_Book t a)
  then show ?thesis
    using Book_save_in_range[OF _ assms] by (metis prod.collapse step.simps(2))
next
  case (Save_Book k t a)
  then show ?thesis
    using Book_save_in_range[OF _ assms] assms
    by (cases "fetch_Book db k") (simp, metis (no_types, lifting) option.simps(5) prod.collapse step.simps(3))
next
  case (Create_BookInstance b c)
  then show ?thesis
    using books_in_range_cong[OF BookInstance_save_Book_rows assms] assms
    by (cases "fetch_Book db b") (simp, metis (no_types, lifting) option.simps(5) prod.collapse step.simps(4))
next
  case (Create_Borrowing i u bd dd)
  then show ?thesis
    using Borrowing_save_in_range[OF _ assms] assms
    by (cases "fetch_BookInstance db i")
      (simp, metis (no_types, lifting) Borrowing_objects_create_def option.simps(5) prod.collapse step.simps(5))
next
  case (Mark_Returned k now)
  then show ?thesis
    using mark_as_returned_in_range[OF _ assms] assms
    by (cases "fetch_Borrowing db k") (simp, metis (no_types, lifting) option.simps(5) prod.collapse step.simps(6))
qed

lemma foldl_step_in_range:
  "books_in_range db \<Longrightarrow> books_in_range (foldl step db ops)"
  by (induction ops arbitrary: db) (simp_all add: step_in_range)

lemma empty_database_in_range: "books_in_range empty_database"
  by (simp add: books_in_range_def empty_database_def)


lemma Book_save_clamps:
  "Book_save bk db = (e, bk', db') \<Longrightarrow>
     available_copies bk' = min (available_copies bk) (total_copies bk) \<and>
     total_copies bk' = total_copies bk"
  by (auto simp add: Book_save_def super_save_Book_def Let_def min_def split: if_splits)

text \<open>
  C3. After any sequence of operations from the empty storage (Books created and saved
  with any copy counts, instances created, Borrowings created and marked returned), every
  stored Book has \<open>0 \<le> available_copies \<le> total_copies\<close>, and the same holds from any storage
  in which it held. \<open>Book.save\<close> leaves \<open>total_copies\<close> alone and sets
  \<open>available_copies\<close> to the smaller of the two counts, so a count above the total is
  clamped to it; a count below 0 is refused by the column check and never stored.
\<close>

theorem books_always_in_range:
  "(\<forall>k r. Book_rows (run ops) k = Some r \<longrightarrow>
      0 \<le> available_copies r \<and> available_copies r \<le> total_copies r) \<and>
   (books_in_range db \<longrightarrow> books_in_range (foldl step db ops)) \<and>
   (case Book_save bk db of
      (e, bk', db') \<Rightarrow>
        available_copies bk' = min (available_copies bk) (total_copies bk) \<and>
        total_copies bk' = total_copies bk)"
proof -
  have "books_in_range (run ops)"
    unfolding run_def using empty_database_in_range by (rule foldl_step_in_range)
  then have a: "\<forall>k r. Book_rows (run ops) k = Some r \<longrightarrow>
      0 \<le> available_copies r \<and> available_copies r \<le> total_copies r"
    by (simp add: books_in_range_def)
  have c: "case Book_save bk db of
      (e, bk', db') \<Rightarrow>
        available_copies bk' = min (available_copies bk) (total_copies bk) \<and>
        total_copies bk' = total_copies bk"
    using Book_save_clamps[of bk db] by (cases "Book_save bk db") simp
  show ?thesis using a c foldl_step_in_range by blast
qed

theorem books_always_in_range_witness:
  "Book_rows (run [Create_User, Create_Book 3 5, Create_BookInstance 1 good,
                   Create_Borrowing 1 1 0 14, Mark_Returned 1 20, Save_Book 1 2 9]) 1 =
     Some \<lparr>Book_id = Some 1, total_copies = 2, available_copies = 2\<rparr> \<and>
   0 \<le> available_copies \<lparr>Book_id = Some 1, total_copies = 2, available_copies = 2\<rparr> \<and>
   available_copies \<lparr>Book_id = Some 1, total_copies = 2, available_copies = 2\<rparr>
     \<le> total_copies \<lparr>Book_id = Some 1, total_copies = 2, available_copies = 2\<rparr> \<and>
   books_in_range empty_database \<and>
   books_in_range
     (foldl step empty_database
        [Create_User, Create_Book 3 5, Create_BookInstance 1 good,
         Create_Borrowing 1 1 0 14, Mark_Returned 1 20, Save_Book 1 2 9]) \<and>
   (case Book_save \<lparr>Book_id = None, total_copies = 3, available_copies = 5\<rparr> empty_database of
      (e, bk', db') \<Rightarrow> available_copies bk' = 3 \<and> total_copies bk' = 3)"
proof -
  have e: "Book_rows (run [Create_User, Create_Book 3 5, Create_BookInstance 1 good,
                   Create_Borrowing 1 1 0 14, Mark_Returned 1 20, Save_Book 1 2 9]) 1 =
     Some \<lparr>Book_id = Some 1, total_copies = 2, available_copies = 2\<rparr>"
    by code_simp
  have i: "books_in_range empty_database"
    by (simp add: books_in_range_def empty_database_def)
  have m: "min (available_copies \<lparr>Book_id = None, total_copies = 3, available_copies = 5\<rparr>)
               (total_copies \<lparr>Book_id = None, total_copies = 3, available_copies = 5\<rparr>) = 3"
    "total_copies \<lparr>Book_id = None, total_copies = 3, available_copies = 5\<rparr> = 3"
    by simp_all
  from books_always_in_range
    [of "[Create_User, Create_Book 3 5, Create_BookInstance 1 good,
          Create_Borrowing 1 1 0 14, Mark_Returned 1 20, Save_Book 1 2 9]" empty_database
        "\<lparr>Book_id = None, total_copies = 3, available_copies = 5\<rparr>"]
    e i
  show ?thesis unfolding m by simp
qed

subsection \<open>Returning a copy\<close>

lemma super_save_Borrowing_is_returned:
  "super_save_Borrowing self db = (e, self', db') \<Longrightarrow> is_returned self' = is_returned self"
  by (auto simp add: super_save_Borrowing_def Let_def split: sum.splits if_splits)

lemma Borrowing_save_is_returned:
  "Borrowing_save self db = (e, self', db') \<Longrightarrow> is_returned self' = is_returned self"
  by (auto simp add: Borrowing_save_def set_book_instance_def Let_def
      dest: super_save_Borrowing_is_returned
      split: sum.splits if_splits prod.splits option.splits)

lemma mark_as_returned_is_returned:
  "mark_as_returned self now db = (e, self', db') \<Longrightarrow> is_returned self'"
  by (auto simp add: mark_as_returned_def set_book_instance_def Let_def
      dest: Borrowing_save_is_returned
      split: sum.splits if_splits prod.splits option.splits)



lemma related_eq: "rel_id r = a \<Longrightarrow> cached r = c \<Longrightarrow> r = Related a c"
  by (cases r) simp

lemma mark_as_returned_effect:
  assumes f1: "fetch_Borrowing db k = Some self" and k0: "k \<noteq> 0" and nr: "\<not> is_returned self"
    and ri: "rel_id (book_instance self) = Some i" and f2: "fetch_BookInstance db i = Some inst"
    and ne: "inventory_number inst \<noteq> []" and nt: "\<not> inventory_number_taken db i (inventory_number inst)"
    and rb: "rel_id (book inst) = Some b" and f3: "fetch_Book db b = Some bk"
    and t0: "0 \<le> total_copies bk" and a0: "0 \<le> available_copies bk"
    and us: "borrower self \<in> set (User_ids db)"
  shows "\<exists>self' db'. mark_as_returned self now db = (None, self', db') \<and>
     is_returned self' \<and> return_date self' = Some now \<and>
     fetch_Borrowing db' k = Some (self\<lparr>is_returned := True, return_date := Some now\<rparr>) \<and>
     fetch_BookInstance db' i = Some (inst\<lparr>is_available := True\<rparr>) \<and>
     fetch_Book db' b = Some (bk\<lparr>available_copies := min (available_copies bk + 1) (total_copies bk)\<rparr>)"
proof -
  define self1 where "self1 = self\<lparr>is_returned := True, return_date := Some now\<rparr>"
  define inst1 where "inst1 = inst\<lparr>is_available := True\<rparr>"
  define bk2 where "bk2 = bk\<lparr>available_copies := min (available_copies bk + 1) (total_copies bk)\<rparr>"
  define db1 where "db1 = db\<lparr>Book_rows := (Book_rows db)(b \<mapsto> bk2), Book_seq := max (Book_seq db) (Suc b)\<rparr>"
  define inst2 where "inst2 = set_book inst1 bk2"
  define db2 where "db2 = db1\<lparr>BookInstance_rows := (BookInstance_rows db1)(i \<mapsto> inst2\<lparr>book := Related (Some b) None\<rparr>),
         BookInstance_seq := max (BookInstance_seq db1) (Suc i)\<rparr>"
  define self2 where "self2 = set_book_instance self1 inst2"
  define db3 where "db3 = db2\<lparr>Borrowing_rows := (Borrowing_rows db2)(k \<mapsto> self2\<lparr>pk := Some k, book_instance := Related (Some i) None\<rparr>),
         Borrowing_seq := max (Borrowing_seq db2) (Suc k)\<rparr>"
  from f1 have pk: "pk self = Some k" and cb: "cached (book_instance self) = None"
    using fetch_Borrowing_SomeD by blast+
  from f2 have ii: "BookInstance_id inst = Some i" and ci: "cached (book inst) = None"
    using fetch_BookInstance_SomeD by blast+
  from f3 have bi: "Book_id bk = Some b" by (rule fetch_Book_SomeD)
  have bself: "book_instance self = Related (Some i) None" using ri cb by (rule related_eq)
  have binst: "book inst = Related (Some b) None" using rb ci by (rule related_eq)
  have g1: "get_book_instance self1 db = Inr inst"
    by (rule get_book_instance_fetch[where i = i]) (simp_all add: self1_def cb ri f2)
  have g2: "get_book inst1 db = Inr bk"
    by (rule get_book_fetch[where b = b]) (simp_all add: inst1_def ci rb f3)
  have s1: "Book_save (bk\<lparr>available_copies := available_copies bk + 1\<rparr>) db = (None, bk2, db1)"
    using t0 a0 bi by (simp add: Book_save_success bk2_def db1_def)
  have s2: "BookInstance_save inst2 db1 = (None, inst2, db2)"
    unfolding db2_def
    apply (rule BookInstance_save_success[where bk = bk2])
    using ne ii bi nt
    by (simp_all add: inst2_def inst1_def set_book_def rb bk2_def db1_def inventory_number_taken_def)
  have s3: "Borrowing_save self2 db2 = (None, self2, db3)"
  proof -
    have "pk self2 = Some k" by (simp add: self2_def self1_def set_book_instance_def pk)
    moreover have "book_instance self2 = Related (Some i) (Some inst2)"
      by (simp add: self2_def self1_def set_book_instance_def ri)
    moreover have "BookInstance_id inst2 = Some i"
      by (simp add: inst2_def inst1_def set_book_def ii)
    moreover have "BookInstance_rows db2 i \<noteq> None" by (simp add: db2_def)
    moreover have "borrower self2 \<in> set (User_ids db2)"
      using us by (simp add: self2_def self1_def set_book_instance_def db2_def db1_def)
    ultimately show ?thesis using k0
      by (simp add: Borrowing_save_def super_save_Borrowing_success[where i = i and inst = inst2 and k = k] db3_def)
  qed
  have res: "mark_as_returned self now db = (None, self2, db3)"
    using nr g1 g2 s1 s2 s3
    by (simp add: mark_as_returned_def Let_def self1_def[symmetric] inst1_def[symmetric] inst2_def[symmetric] self2_def[symmetric])
  have r1: "fetch_Borrowing db3 k = Some self1"
    using fetch_Borrowing_fine[OF f1]
    by (simp add: fetch_Borrowing_def db3_def self2_def set_book_instance_def uncache_def self1_def pk bself)
  have r2: "fetch_BookInstance db3 i = Some inst1"
    by (simp add: fetch_BookInstance_def db3_def db2_def inst2_def set_book_def uncache_def inst1_def ii binst)
  have r3: "fetch_Book db3 b = Some bk2"
    by (simp add: fetch_Book_def db3_def db2_def db1_def bk2_def bi)
  show ?thesis
    using res r1 r2 r3 by (simp add: self2_def self1_def set_book_instance_def inst1_def bk2_def)
qed

text \<open>
  C4, as the code has it. \<open>mark_as_returned\<close> is idempotent: whatever the first call did,
  a second call on the object and storage it left changes nothing. On a Borrowing that
  is already returned it does nothing. Take a Borrowing that is not returned, as it is
  read from the storage under a key other than 0 (it then holds no cached instance, and
  its fine fits the field), whose borrower is a stored user, whose instance is stored
  with an inventory number that is not empty and that no other instance row has, and
  whose instance's Book is stored with copy counts that are not negative. On such a
  Borrowing the call returns without an exception; it sets \<open>is_returned\<close>, stamps
  \<open>return_date\<close> with the current time, makes the stored instance available, and raises
  the stored Book's \<open>available_copies\<close> by 1 unless that would exceed \<open>total_copies\<close>:
  \<open>Book.save\<close> caps the count at the total, so the new count is
  \<open>min (available_copies + 1) total_copies\<close>.
\<close>

theorem mark_as_returned_idempotent_capped:
  "(case mark_as_returned self now db of
      (e, self', db') \<Rightarrow> mark_as_returned self' now' db' = (None, self', db')) \<and>
   (is_returned self \<longrightarrow> mark_as_returned self now db = (None, self, db)) \<and>
   (fetch_Borrowing db k = Some self \<and> k \<noteq> 0 \<and> \<not> is_returned self \<and>
    borrower self \<in> set (User_ids db) \<and>
    rel_id (book_instance self) = Some i \<and> fetch_BookInstance db i = Some inst \<and>
    inventory_number inst \<noteq> [] \<and> \<not> inventory_number_taken db i (inventory_number inst) \<and>
    rel_id (book inst) = Some b \<and> fetch_Book db b = Some bk \<and>
    0 \<le> total_copies bk \<and> 0 \<le> available_copies bk \<longrightarrow>
    (\<exists>self' db'.
       mark_as_returned self now db = (None, self', db') \<and>
       is_returned self' \<and> return_date self' = Some now \<and>
       fetch_Borrowing db' k = Some (self\<lparr>is_returned := True, return_date := Some now\<rparr>) \<and>
       fetch_BookInstance db' i = Some (inst\<lparr>is_available := True\<rparr>) \<and>
       fetch_Book db' b =
         Some (bk\<lparr>available_copies := min (available_copies bk + 1) (total_copies bk)\<rparr>)))"
proof -
  have a: "case mark_as_returned self now db of
      (e, self', db') \<Rightarrow> mark_as_returned self' now' db' = (None, self', db')"
    by (auto simp add: mark_as_returned_def[of _ now'] dest: mark_as_returned_is_returned)
  have b: "is_returned self \<longrightarrow> mark_as_returned self now db = (None, self, db)"
    by (simp add: mark_as_returned_def)
  show ?thesis using a b mark_as_returned_effect[of db k self i inst b bk now] by blast
qed

theorem mark_as_returned_idempotent_capped_witness:
  "fetch_Borrowing lent 1 = Some first_borrowing \<and> (1::nat) \<noteq> 0 \<and>
   \<not> is_returned first_borrowing \<and> borrower first_borrowing \<in> set (User_ids lent) \<and>
   rel_id (book_instance first_borrowing) = Some 1 \<and>
   fetch_BookInstance lent 1 = Some (first_copy False) \<and>
   inventory_number (first_copy False) \<noteq> [] \<and>
   \<not> inventory_number_taken lent 1 (inventory_number (first_copy False)) \<and>
   rel_id (book (first_copy False)) = Some 1 \<and>
   fetch_Book lent 1 = Some \<lparr>Book_id = Some 1, total_copies = 2, available_copies = 1\<rparr> \<and>
   (\<exists>self' db'.
       mark_as_returned first_borrowing 50 lent = (None, self', db') \<and>
       is_returned self' \<and> return_date self' = Some 50 \<and>
       fetch_Borrowing db' 1 =
         Some (first_borrowing\<lparr>is_returned := True, return_date := Some 50\<rparr>) \<and>
       fetch_BookInstance db' 1 = Some (first_copy True) \<and>
       fetch_Book db' 1 = Some \<lparr>Book_id = Some 1, total_copies = 2, available_copies = 2\<rparr>) \<and>
   (case mark_as_returned first_borrowing 50 lent of
      (e, self', db') \<Rightarrow> mark_as_returned self' 60 db' = (None, self', db'))"
proof -
  have h: "fetch_Borrowing lent 1 = Some first_borrowing \<and> (1::nat) \<noteq> 0 \<and>
   \<not> is_returned first_borrowing \<and> borrower first_borrowing \<in> set (User_ids lent) \<and>
   rel_id (book_instance first_borrowing) = Some 1 \<and>
   fetch_BookInstance lent 1 = Some (first_copy False) \<and>
   inventory_number (first_copy False) \<noteq> [] \<and>
   \<not> inventory_number_taken lent 1 (inventory_number (first_copy False)) \<and>
   rel_id (book (first_copy False)) = Some 1 \<and>
   fetch_Book lent 1 = Some \<lparr>Book_id = Some 1, total_copies = 2, available_copies = 1\<rparr>"
    by code_simp
  note t = mark_as_returned_idempotent_capped
    [where self = first_borrowing and now = 50 and now' = 60 and k = 1 and i = 1 and b = 1
      and db = lent and inst = "first_copy False"
      and bk = "\<lparr>Book_id = Some 1, total_copies = 2, available_copies = 1\<rparr>"]
  have z: "0 \<le> total_copies \<lparr>Book_id = Some 1, total_copies = 2, available_copies = 1\<rparr>"
    "0 \<le> available_copies \<lparr>Book_id = Some 1, total_copies = 2, available_copies = 1\<rparr>"
    by simp_all
  from t h z have "\<exists>self' db'.
       mark_as_returned first_borrowing 50 lent = (None, self', db') \<and>
       is_returned self' \<and> return_date self' = Some 50 \<and>
       fetch_Borrowing db' 1 =
         Some (first_borrowing\<lparr>is_returned := True, return_date := Some 50\<rparr>) \<and>
       fetch_BookInstance db' 1 = Some ((first_copy False)\<lparr>is_available := True\<rparr>) \<and>
       fetch_Book db' 1 =
         Some (\<lparr>Book_id = Some 1, total_copies = 2, available_copies = 1\<rparr>
                 \<lparr>available_copies :=
                    min (available_copies
                           \<lparr>Book_id = Some 1, total_copies = 2, available_copies = 1\<rparr> + 1)
                      (total_copies
                           \<lparr>Book_id = Some 1, total_copies = 2, available_copies = 1\<rparr>)\<rparr>)"
    by blast
  moreover have "(first_copy False)\<lparr>is_available := True\<rparr> = first_copy True"
    by (simp add: first_copy_def)
  moreover have "\<lparr>Book_id = Some 1, total_copies = 2, available_copies = 1\<rparr>
                 \<lparr>available_copies :=
                    min (available_copies
                           \<lparr>Book_id = Some 1, total_copies = 2, available_copies = 1\<rparr> + 1)
                      (total_copies
                           \<lparr>Book_id = Some 1, total_copies = 2, available_copies = 1\<rparr>)\<rparr> =
      \<lparr>Book_id = Some (1::nat), total_copies = 2, available_copies = 2\<rparr>"
    by simp
  ultimately have c: "\<exists>self' db'.
       mark_as_returned first_borrowing 50 lent = (None, self', db') \<and>
       is_returned self' \<and> return_date self' = Some 50 \<and>
       fetch_Borrowing db' 1 =
         Some (first_borrowing\<lparr>is_returned := True, return_date := Some 50\<rparr>) \<and>
       fetch_BookInstance db' 1 = Some (first_copy True) \<and>
       fetch_Book db' 1 = Some \<lparr>Book_id = Some 1, total_copies = 2, available_copies = 2\<rparr>"
    by (simp only:)
  from t have d: "case mark_as_returned first_borrowing 50 lent of
      (e, self', db') \<Rightarrow> mark_as_returned self' 60 db' = (None, self', db')"
    by (rule conjunct1)
  from h c d show ?thesis by blast
qed

text \<open>
  The claim as written fails where the count is already at the total. In \<open>resaved\<close> a
  book with one copy is borrowed and its counts are saved again as 1 and 1; the copy is
  then returned: the call succeeds and \<open>available_copies\<close> is 1 before it and 1 after it.
\<close>

theorem mark_as_returned_increment_counterexample:
  "fetch_Borrowing resaved 1 = Some first_borrowing \<and> \<not> is_returned first_borrowing \<and>
   fetch_Book resaved 1 = Some \<lparr>Book_id = Some 1, total_copies = 1, available_copies = 1\<rparr> \<and>
   fst (mark_as_returned first_borrowing 50 resaved) = None \<and>
   fetch_Book (snd (snd (mark_as_returned first_borrowing 50 resaved))) 1 =
     Some \<lparr>Book_id = Some 1, total_copies = 1, available_copies = 1\<rparr>"
  by code_simp

subsection \<open>Borrowing an available copy\<close>

lemma CreateBorrowing_success:
  assumes f2: "fetch_BookInstance db i = Some inst" and av: "is_available inst"
    and ne: "inventory_number inst \<noteq> []"
    and nt: "\<not> inventory_number_taken db i (inventory_number inst)"
    and rb: "rel_id (book inst) = Some b" and f3: "fetch_Book db b = Some bk"
    and t0: "0 \<le> total_copies bk" and a1: "1 \<le> available_copies bk"
    and at: "available_copies bk \<le> total_copies bk + 1"
    and us: "u \<in> set (User_ids db)"
  shows "\<exists>self' db'.
     Borrowing_objects_create inst u bd dd False 0 db = (None, self', db') \<and>
     pk self' = Some (Borrowing_seq db) \<and>
     fetch_Borrowing db' (Borrowing_seq db) =
       Some \<lparr>pk = Some (Borrowing_seq db), book_instance = Related (Some i) None, borrower = u,
             borrow_date = bd, due_date = dd, return_date = None, is_returned = False, fine = 0\<rparr> \<and>
     fetch_BookInstance db' i = Some (inst\<lparr>is_available := False\<rparr>) \<and>
     fetch_Book db' b = Some (bk\<lparr>available_copies := available_copies bk - 1\<rparr>)"
proof -
  define self0 where "self0 = new_Borrowing inst u bd dd False 0"
  define inst1 where "inst1 = inst\<lparr>is_available := False\<rparr>"
  define bk2 where "bk2 = bk\<lparr>available_copies := available_copies bk - 1\<rparr>"
  define db1 where
    "db1 = db\<lparr>Book_rows := (Book_rows db)(b \<mapsto> bk2), Book_seq := max (Book_seq db) (Suc b)\<rparr>"
  define inst2 where "inst2 = set_book inst1 bk2"
  define db2 where
    "db2 = db1\<lparr>BookInstance_rows := (BookInstance_rows db1)(i \<mapsto> inst2\<lparr>book := Related (Some b) None\<rparr>),
               BookInstance_seq := max (BookInstance_seq db1) (Suc i)\<rparr>"
  define self2 where "self2 = set_book_instance self0 inst2"
  define k where "k = Borrowing_seq db"
  define db3 where
    "db3 = db2\<lparr>Borrowing_rows :=
                 (Borrowing_rows db2)(k \<mapsto> self2\<lparr>pk := Some k, book_instance := Related (Some i) None\<rparr>),
               Borrowing_seq := max (Borrowing_seq db2) (Suc k)\<rparr>"
  from f2 have ii: "BookInstance_id inst = Some i" and ci: "cached (book inst) = None"
    using fetch_BookInstance_SomeD by blast+
  from f3 have bi: "Book_id bk = Some b" by (rule fetch_Book_SomeD)
  have binst: "book inst = Related (Some b) None" using rb ci by (rule related_eq)
  have p0: "pk self0 = None" by (simp add: self0_def new_Borrowing_def)
  have g1: "get_book_instance self0 db = Inr inst"
    by (simp add: get_book_instance_def self0_def new_Borrowing_def)
  have g2: "get_book inst1 db = Inr bk"
    by (rule get_book_fetch[where b = b]) (simp_all add: inst1_def ci rb f3)
  have mn: "min (available_copies bk - 1) (total_copies bk) = available_copies bk - 1"
    using at by simp
  have s1: "Book_save (bk\<lparr>available_copies := available_copies bk - 1\<rparr>) db = (None, bk2, db1)"
    using t0 a1 bi by (simp add: Book_save_success bk2_def db1_def mn)
  have s2: "BookInstance_save inst2 db1 = (None, inst2, db2)"
    unfolding db2_def
    apply (rule BookInstance_save_success[where bk = bk2])
    using ne ii bi nt
    by (simp_all add: inst2_def inst1_def set_book_def rb bk2_def db1_def inventory_number_taken_def)
  have s3: "super_save_Borrowing self2 db2 = (None, self2\<lparr>pk := Some k\<rparr>, db3)"
    unfolding db3_def
    apply (rule super_save_Borrowing_success[where inst = inst2])
    using us
    by (simp_all add: self2_def self0_def new_Borrowing_def set_book_instance_def ii inst2_def
        inst1_def set_book_def k_def db2_def db1_def)
  have res: "Borrowing_objects_create inst u bd dd False 0 db = (None, self2\<lparr>pk := Some k\<rparr>, db3)"
    using av p0 g1 g2 s1 s2 s3
    by (simp add: Borrowing_objects_create_def Borrowing_save_def Let_def self0_def[symmetric]
        inst1_def[symmetric] inst2_def[symmetric] self2_def[symmetric])
  have r1: "fetch_Borrowing db3 k =
       Some \<lparr>pk = Some k, book_instance = Related (Some i) None, borrower = u,
             borrow_date = bd, due_date = dd, return_date = None, is_returned = False, fine = 0\<rparr>"
    by (simp add: fetch_Borrowing_def db3_def self2_def set_book_instance_def uncache_def
        self0_def new_Borrowing_def fine_fits_def)
  have r2: "fetch_BookInstance db3 i = Some inst1"
    by (simp add: fetch_BookInstance_def db3_def db2_def inst2_def set_book_def uncache_def
        inst1_def ii binst)
  have r3: "fetch_Book db3 b = Some bk2"
    by (simp add: fetch_Book_def db3_def db2_def db1_def bk2_def bi)
  show ?thesis
    using res r1 r2 r3 by (simp add: k_def inst1_def bk2_def)
qed

lemma CreateBorrowing_no_copies:
  assumes f2: "fetch_BookInstance db i = Some inst" and av: "is_available inst"
    and rb: "rel_id (book inst) = Some b" and f3: "fetch_Book db b = Some bk"
    and t0: "0 \<le> total_copies bk" and a1: "available_copies bk < 1"
  shows "fst (Borrowing_objects_create inst u bd dd False f db) = Some IntegrityError \<and>
         snd (snd (Borrowing_objects_create inst u bd dd False f db)) = db"
proof -
  define self0 where "self0 = new_Borrowing inst u bd dd False f"
  define inst1 where "inst1 = inst\<lparr>is_available := False\<rparr>"
  from f2 have ci: "cached (book inst) = None"
    using fetch_BookInstance_SomeD by blast
  have p0: "pk self0 = None" by (simp add: self0_def new_Borrowing_def)
  have g1: "get_book_instance self0 db = Inr inst"
    by (simp add: get_book_instance_def self0_def new_Borrowing_def)
  have g2: "get_book inst1 db = Inr bk"
    by (rule get_book_fetch[where b = b]) (simp_all add: inst1_def ci rb f3)
  have s1: "Book_save (bk\<lparr>available_copies := available_copies bk - 1\<rparr>) db =
              (Some IntegrityError, bk\<lparr>available_copies := available_copies bk - 1\<rparr>, db)"
    using t0 a1 by (simp add: Book_save_def super_save_Book_def)
  show ?thesis
    using av p0 g1 g2 s1
    by (simp add: Borrowing_objects_create_def Borrowing_save_def Let_def self0_def[symmetric]
        inst1_def[symmetric])
qed


text \<open>
  C2, as the code has it. Take a BookInstance as it is read from the storage, available,
  with an inventory number that is not empty and that no other instance row has, of a
  stored Book whose \<open>total_copies\<close> is not negative and whose \<open>available_copies\<close> is not
  more than one above its \<open>total_copies\<close>, and a borrower who is a stored user. If the
  Book has at least one available copy, creating a Borrowing of the instance (with no
  fine) succeeds and all three changes are stored: the instance is unavailable, the
  Book's \<open>available_copies\<close> is one less, and the new Borrowing is stored under the next
  key with \<open>is_returned\<close> false. If the Book's \<open>available_copies\<close> is 0 or less, the
  decrement gives a negative count, the storage refuses the Book row (IntegrityError),
  and nothing is stored: the storage is unchanged.
\<close>

theorem CreateBorrowing_available:
  assumes "fetch_BookInstance db i = Some inst" and "is_available inst"
    and "inventory_number inst \<noteq> []"
    and "\<not> inventory_number_taken db i (inventory_number inst)"
    and "rel_id (book inst) = Some b" and "fetch_Book db b = Some bk"
    and "0 \<le> total_copies bk" and "available_copies bk \<le> total_copies bk + 1"
    and "u \<in> set (User_ids db)"
  shows
    "(1 \<le> available_copies bk \<longrightarrow>
       (\<exists>self' db'.
          Borrowing_objects_create inst u bd dd False 0 db = (None, self', db') \<and>
          pk self' = Some (Borrowing_seq db) \<and>
          fetch_Borrowing db' (Borrowing_seq db) =
            Some \<lparr>pk = Some (Borrowing_seq db), book_instance = Related (Some i) None,
                  borrower = u, borrow_date = bd, due_date = dd, return_date = None,
                  is_returned = False, fine = 0\<rparr> \<and>
          fetch_BookInstance db' i = Some (inst\<lparr>is_available := False\<rparr>) \<and>
          fetch_Book db' b = Some (bk\<lparr>available_copies := available_copies bk - 1\<rparr>))) \<and>
     (available_copies bk < 1 \<longrightarrow>
        fst (Borrowing_objects_create inst u bd dd False 0 db) = Some IntegrityError \<and>
        snd (snd (Borrowing_objects_create inst u bd dd False 0 db)) = db)"
  using CreateBorrowing_success[OF assms(1-7) _ assms(8,9), of bd dd]
    CreateBorrowing_no_copies[OF assms(1,2,5,6,7), of u bd dd 0]
  by blast

theorem CreateBorrowing_available_witness:
  "(fetch_BookInstance shelved 1 = Some (first_copy True) \<and> is_available (first_copy True) \<and>
    inventory_number (first_copy True) \<noteq> [] \<and>
    \<not> inventory_number_taken shelved 1 (inventory_number (first_copy True)) \<and>
    rel_id (book (first_copy True)) = Some 1 \<and>
    fetch_Book shelved 1 = Some \<lparr>Book_id = Some 1, total_copies = 2, available_copies = 2\<rparr> \<and>
    (1::nat) \<in> set (User_ids shelved) \<and>
    (\<exists>self' db'.
       Borrowing_objects_create (first_copy True) 1 0 14 False 0 shelved = (None, self', db') \<and>
       pk self' = Some 1 \<and>
       fetch_Borrowing db' 1 = Some first_borrowing \<and>
       fetch_BookInstance db' 1 = Some (first_copy False) \<and>
       fetch_Book db' 1 = Some \<lparr>Book_id = Some 1, total_copies = 2, available_copies = 1\<rparr>)) \<and>
   (fetch_BookInstance overbooked 2 = Some second_copy \<and> is_available second_copy \<and>
    inventory_number second_copy \<noteq> [] \<and>
    \<not> inventory_number_taken overbooked 2 (inventory_number second_copy) \<and>
    rel_id (book second_copy) = Some 1 \<and>
    fetch_Book overbooked 1 = Some \<lparr>Book_id = Some 1, total_copies = 1, available_copies = 0\<rparr> \<and>
    (1::nat) \<in> set (User_ids overbooked) \<and>
    fst (Borrowing_objects_create second_copy 1 0 14 False 0 overbooked) = Some IntegrityError \<and>
    snd (snd (Borrowing_objects_create second_copy 1 0 14 False 0 overbooked)) = overbooked)"
proof -
  have h1: "fetch_BookInstance shelved 1 = Some (first_copy True)"
    "is_available (first_copy True)" "inventory_number (first_copy True) \<noteq> []"
    "\<not> inventory_number_taken shelved 1 (inventory_number (first_copy True))"
    "rel_id (book (first_copy True)) = Some 1"
    "fetch_Book shelved 1 = Some \<lparr>Book_id = Some 1, total_copies = 2, available_copies = 2\<rparr>"
    "(1::nat) \<in> set (User_ids shelved)" "Borrowing_seq shelved = 1"
    by code_simp+
  have h2: "fetch_BookInstance overbooked 2 = Some second_copy"
    "is_available second_copy" "inventory_number second_copy \<noteq> []"
    "\<not> inventory_number_taken overbooked 2 (inventory_number second_copy)"
    "rel_id (book second_copy) = Some 1"
    "fetch_Book overbooked 1 = Some \<lparr>Book_id = Some 1, total_copies = 1, available_copies = 0\<rparr>"
    "(1::nat) \<in> set (User_ids overbooked)"
    by code_simp+
  have e: "(first_copy True)\<lparr>is_available := False\<rparr> = first_copy False"
    "\<lparr>pk = Some 1, book_instance = Related (Some 1) None, borrower = 1, borrow_date = 0,
      due_date = 14, return_date = None, is_returned = False, fine = 0\<rparr> = first_borrowing"
    by (simp_all add: first_copy_def first_borrowing_def)
  from CreateBorrowing_available
    [where db = shelved and i = 1 and inst = "first_copy True" and b = 1
       and bk = "\<lparr>Book_id = Some 1, total_copies = 2, available_copies = 2\<rparr>"
       and u = 1 and bd = 0 and dd = 14, OF h1(1-6) _ _ h1(7)]
  have w1: "\<exists>self' db'.
       Borrowing_objects_create (first_copy True) 1 0 14 False 0 shelved = (None, self', db') \<and>
       pk self' = Some 1 \<and>
       fetch_Borrowing db' 1 = Some first_borrowing \<and>
       fetch_BookInstance db' 1 = Some (first_copy False) \<and>
       fetch_Book db' 1 = Some \<lparr>Book_id = Some 1, total_copies = 2, available_copies = 1\<rparr>"
    unfolding h1(8) e by simp
  from CreateBorrowing_available
    [where db = overbooked and i = 2 and inst = second_copy and b = 1
       and bk = "\<lparr>Book_id = Some 1, total_copies = 1, available_copies = 0\<rparr>"
       and u = 1 and bd = 0 and dd = 14, OF h2(1-6) _ _ h2(7)]
  have w2: "fst (Borrowing_objects_create second_copy 1 0 14 False 0 overbooked) =
      Some IntegrityError \<and>
    snd (snd (Borrowing_objects_create second_copy 1 0 14 False 0 overbooked)) = overbooked"
    by simp
  show ?thesis using h1(1-7) h2 w1 w2 by blast
qed

text \<open>
  The claim as written fails for an available copy of a Book whose count is 0. In
  \<open>overbooked\<close> a Book created with one copy has two instances and the first is
  borrowed; borrowing the second, which is available, for the stored user raises
  IntegrityError and stores no Borrowing.
\<close>

theorem CreateBorrowing_available_counterexample:
  "fetch_BookInstance overbooked 2 = Some second_copy \<and> is_available second_copy \<and>
   map_option available_copies (fetch_Book overbooked 1) = Some 0 \<and>
   User_ids overbooked = [1] \<and>
   fst (Borrowing_objects_create second_copy 1 0 14 False 0 overbooked) = Some IntegrityError \<and>
   Borrowing_seq (snd (snd (Borrowing_objects_create second_copy 1 0 14 False 0 overbooked))) = 2 \<and>
   Borrowing_rows (snd (snd (Borrowing_objects_create second_copy 1 0 14 False 0 overbooked))) 2 =
     None"
  by code_simp

text \<open>
  The methods of models.py write one row after another. With a borrower that is not a
  stored user, the storage refuses the Borrowing row after the Book row and the
  instance row were written: in \<open>shelved\<close>, borrowing the first copy for the user key 7
  raises IntegrityError, leaves the instance unavailable and the Book with one copy
  less, and stores no Borrowing.
\<close>

lemma CreateBorrowing_borrower_missing:
  "7 \<notin> set (User_ids shelved) \<and>
   fst (Borrowing_objects_create (first_copy True) 7 0 14 False 0 shelved) = Some IntegrityError \<and>
   fetch_BookInstance
     (snd (snd (Borrowing_objects_create (first_copy True) 7 0 14 False 0 shelved))) 1 =
     Some (first_copy False) \<and>
   fetch_Book (snd (snd (Borrowing_objects_create (first_copy True) 7 0 14 False 0 shelved))) 1 =
     Some \<lparr>Book_id = Some 1, total_copies = 2, available_copies = 1\<rparr> \<and>
   Borrowing_rows
     (snd (snd (Borrowing_objects_create (first_copy True) 7 0 14 False 0 shelved))) 1 = None"
  by code_simp

subsection \<open>The seeder loop\<close>

lemma loop_body_cases [case_names break create_failed return_failed continued]:
  fixes rnd :: "nat \<Rightarrow> draw" and users :: "nat list" and s :: loop_state
  defines "pool \<equiv> (if available_instances s = [] then filter_available (storage s)
                    else available_instances s)"
    and "d \<equiv> rnd (nat (tries s + 1))"
  defines "at \<equiv> pick_instance d mod length pool"
  defines "inst \<equiv> pool ! at"
  obtains
    (break) "pool = []"
      "loop_body rnd users s = Break (s\<lparr>available_instances := [], tries := tries s + 1\<rparr>)"
  | (create_failed) e b db1 where "pool \<noteq> []"
      "Borrowing_objects_create inst (choice users (pick_user d)) (drawn_borrow_dt d)
         ((drawn_borrow_dt d + 86400 * drawn_days d) div 86400) False 0 (storage s) =
       (Some e, b, db1)"
      "loop_body rnd users s =
         Raise e (s\<lparr>storage := db1, available_instances := pool[at := picked_object inst b],
                    tries := tries s + 1\<rparr>)"
  | (return_failed) b db1 e b' db2 where "pool \<noteq> []"
      "Borrowing_objects_create inst (choice users (pick_user d)) (drawn_borrow_dt d)
         ((drawn_borrow_dt d + 86400 * drawn_days d) div 86400) False 0 (storage s) =
       (None, b, db1)"
      "drawn_returned d" "mark_as_returned b (drawn_now d) db1 = (Some e, b', db2)"
      "loop_body rnd users s =
         Raise e (s\<lparr>storage := db2, available_instances := pool[at := picked_object inst b'],
                    tries := tries s + 1\<rparr>)"
  | (continued) b db1 b' db2 where "pool \<noteq> []"
      "Borrowing_objects_create inst (choice users (pick_user d)) (drawn_borrow_dt d)
         ((drawn_borrow_dt d + 86400 * drawn_days d) div 86400) False 0 (storage s) =
       (None, b, db1)"
      "if drawn_returned d then mark_as_returned b (drawn_now d) db1 = (None, b', db2)
       else db2 = db1 \<and> b' = b"
      "loop_body rnd users s =
         Continue \<lparr>storage = db2,
                   available_instances =
                     filter (\<lambda>bi. BookInstance_id bi \<noteq> BookInstance_id (picked_object inst b'))
                       (pool[at := picked_object inst b']),
                   created = created s + 1, tries = tries s + 1\<rparr>"
proof (cases "pool = []")
  case True
  then have "loop_body rnd users s = Break (s\<lparr>available_instances := [], tries := tries s + 1\<rparr>)"
    by (simp add: loop_body_def Let_def pool_def)
  with True show ?thesis by (rule break)
next
  case ne: False
  note f = pool_def[symmetric] d_def[symmetric] at_def[symmetric] inst_def[symmetric]
  obtain e1 b db1 where
    c: "Borrowing_objects_create inst (choice users (pick_user d)) (drawn_borrow_dt d)
         ((drawn_borrow_dt d + 86400 * drawn_days d) div 86400) False 0 (storage s) = (e1, b, db1)"
    by (metis prod_cases3)
  show ?thesis
  proof (cases e1)
    case (Some e)
    with ne c have "loop_body rnd users s =
         Raise e (s\<lparr>storage := db1, available_instances := pool[at := picked_object inst b],
                    tries := tries s + 1\<rparr>)"
      by (simp add: loop_body_def Let_def f)
    with ne c Some show ?thesis by (intro create_failed[of e b db1]) simp_all
  next
    case cok: None
    obtain e2 b' db2 where
      m: "(if drawn_returned d then mark_as_returned b (drawn_now d) db1 else (None, b, db1)) =
            (e2, b', db2)"
      by (metis prod_cases3)
    show ?thesis
    proof (cases e2)
      case (Some e)
      with m have r: "drawn_returned d" "mark_as_returned b (drawn_now d) db1 = (Some e, b', db2)"
        by (auto split: if_splits)
      from ne c cok r have "loop_body rnd users s =
         Raise e (s\<lparr>storage := db2, available_instances := pool[at := picked_object inst b'],
                    tries := tries s + 1\<rparr>)"
        by (simp add: loop_body_def Let_def f)
      with ne c cok r show ?thesis by (intro return_failed[of b db1 e b' db2]) simp_all
    next
      case None
      with m have r: "if drawn_returned d then mark_as_returned b (drawn_now d) db1 = (None, b', db2)
       else db2 = db1 \<and> b' = b"
        by (auto split: if_splits)
      from ne c cok r have "loop_body rnd users s =
         Continue \<lparr>storage = db2,
                   available_instances =
                     filter (\<lambda>bi. BookInstance_id bi \<noteq> BookInstance_id (picked_object inst b'))
                       (pool[at := picked_object inst b']),
                   created = created s + 1, tries = tries s + 1\<rparr>"
        by (simp add: loop_body_def Let_def f)
      with ne c cok r show ?thesis by (intro continued[of b db1 b' db2]) simp_all
    qed
  qed
qed

lemma borrowings_loop_rule:
  assumes init: "I s"
    and step: "\<And>s s'. I s \<Longrightarrow> created s < count \<Longrightarrow> tries s < count * 10 \<Longrightarrow>
                 loop_body rnd users s = Continue s' \<Longrightarrow> I s'"
    and fin: "\<And>s. I s \<Longrightarrow> \<not> (created s < count \<and> tries s < count * 10) \<Longrightarrow> Q (None, s)"
    and brk: "\<And>s s'. I s \<Longrightarrow> created s < count \<Longrightarrow> tries s < count * 10 \<Longrightarrow>
                 loop_body rnd users s = Break s' \<Longrightarrow> Q (None, s')"
    and exc: "\<And>s e s'. I s \<Longrightarrow> created s < count \<Longrightarrow> tries s < count * 10 \<Longrightarrow>
                 loop_body rnd users s = Raise e s' \<Longrightarrow> Q (Some e, s')"
  shows "Q (borrowings_loop rnd count users s)"
  using assms
proof (induction rnd count users s rule: borrowings_loop.induct)
  case (1 rnd count users s)
  note init = "1.prems"(1) and step = "1.prems"(2) and fin = "1.prems"(3)
    and brk = "1.prems"(4) and exc = "1.prems"(5)
  show ?case
  proof (cases "created s < count \<and> tries s < count * 10")
    case False
    then have "borrowings_loop rnd count users s = (None, s)"
      by (subst borrowings_loop.simps) auto
    with fin[OF init False] show ?thesis by simp
  next
    case True
    show ?thesis
    proof (cases "loop_body rnd users s")
      case (Continue s')
      have "I s'" using step init True Continue by blast
      then have "Q (borrowings_loop rnd count users s')"
        by (rule "1.IH"[OF True Continue])
          ((rule step; assumption) | (rule fin; assumption) | (rule brk; assumption)
            | (rule exc; assumption))+
      moreover have "borrowings_loop rnd count users s = borrowings_loop rnd count users s'"
        using True Continue by (subst borrowings_loop.simps) simp
      ultimately show ?thesis by simp
    next
      case (Break s')
      then have "borrowings_loop rnd count users s = (None, s')"
        using True by (subst borrowings_loop.simps) simp
      with brk init True Break show ?thesis by simp
    next
      case (Raise e s')
      then have "borrowings_loop rnd count users s = (Some e, s')"
        using True by (subst borrowings_loop.simps) simp
      with exc init True Raise show ?thesis by simp
    qed
  qed
qed

lemma loop_body_Continue_counters:
  assumes "loop_body rnd users s = Continue s'"
  shows "created s' = created s + 1 \<and> tries s' = tries s + 1"
  by (cases rule: loop_body_cases[of s rnd users]) (use assms in auto)

lemma loop_body_Break_counters:
  assumes "loop_body rnd users s = Break s'"
  shows "created s' = created s \<and> tries s' = tries s + 1 \<and> storage s' = storage s \<and>
         filter_available (storage s) = []"
  by (cases rule: loop_body_cases[of s rnd users]) (use assms in \<open>auto split: if_splits\<close>)

lemma loop_body_Raise_counters:
  assumes "loop_body rnd users s = Raise e s'"
  shows "created s' = created s \<and> tries s' = tries s + 1"
  by (cases rule: loop_body_cases[of s rnd users]) (use assms in auto)

lemma create_borrowings_bounds:
  "(case create_borrowings rnd count db of
      (e, s) \<Rightarrow>
        0 \<le> created s \<and> created s \<le> tries s \<and> tries s \<le> max 0 (10 * count) \<and>
        created s \<le> max 0 count \<and>
        (e = None \<longrightarrow>
           created s = max 0 count \<or> tries s = max 0 (10 * count) \<or>
           filter_available (storage s) = [] \<or> User_ids db = []))"
proof -
  define I where "I = (\<lambda>s :: loop_state. 0 \<le> created s \<and> created s \<le> tries s \<and>
        tries s \<le> max 0 (10 * count) \<and> created s \<le> max 0 count)"
  define Q where "Q = (\<lambda>(e :: error option, s :: loop_state). I s \<and>
        (e = None \<longrightarrow>
           created s = max 0 count \<or> tries s = max 0 (10 * count) \<or>
           filter_available (storage s) = [] \<or> User_ids db = []))"
  define s0 where
    "s0 = \<lparr>storage = db, available_instances = filter_available db, created = 0, tries = 0\<rparr>"
  have i0: "I s0" by (simp add: I_def s0_def)
  have loop: "Q (borrowings_loop rnd count (User_ids db) s0)"
    using i0
  proof (rule borrowings_loop_rule)
    fix s s' assume "I s" "created s < count" "tries s < count * 10"
      "loop_body rnd (User_ids db) s = Continue s'"
    then show "I s'" using loop_body_Continue_counters[of rnd "User_ids db" s s']
      by (auto simp add: I_def)
  next
    fix s assume "I s" "\<not> (created s < count \<and> tries s < count * 10)"
    then show "Q (None, s)" by (auto simp add: Q_def I_def max_def split: if_splits)
  next
    fix s s' assume "I s" "created s < count" "tries s < count * 10"
      "loop_body rnd (User_ids db) s = Break s'"
    then show "Q (None, s')" using loop_body_Break_counters[of rnd "User_ids db" s s']
      by (auto simp add: Q_def I_def)
  next
    fix s e s' assume "I s" "created s < count" "tries s < count * 10"
      "loop_body rnd (User_ids db) s = Raise e s'"
    then show "Q (Some e, s')" using loop_body_Raise_counters[of rnd "User_ids db" s e s']
      by (auto simp add: Q_def I_def)
  qed
  have "Q (create_borrowings rnd count db)"
  proof (cases "User_ids db = [] \<or> filter_available db = []")
    case True
    then have "create_borrowings rnd count db = (None, s0)"
      by (auto simp add: create_borrowings_def Let_def s0_def)
    then show ?thesis using True i0 by (auto simp add: Q_def s0_def)
  next
    case False
    then have "create_borrowings rnd count db = borrowings_loop rnd count (User_ids db) s0"
      by (auto simp add: create_borrowings_def Let_def s0_def)
    with loop show ?thesis by simp
  qed
  then show ?thesis by (auto simp add: Q_def I_def)
qed

subsection \<open>The exceptions a borrowing can raise\<close>

lemma prepare_related_error:
  "prepare_related f r = Inl e \<Longrightarrow> e \<noteq> InstanceUnavailable"
  by (auto simp add: prepare_related_def Let_def split: option.splits)

lemma get_book_error: "get_book self db = Inl e \<Longrightarrow> e \<noteq> InstanceUnavailable"
  by (auto simp add: get_book_def split: option.splits)

lemma super_save_BookInstance_error:
  "super_save_BookInstance self db = (Some e, self', db') \<Longrightarrow> e \<noteq> InstanceUnavailable"
  by (auto simp add: super_save_BookInstance_def Let_def dest: prepare_related_error
      split: sum.splits if_splits)

lemma super_save_Borrowing_error:
  "super_save_Borrowing self db = (Some e, self', db') \<Longrightarrow> e \<noteq> InstanceUnavailable"
  by (auto simp add: super_save_Borrowing_def Let_def dest: prepare_related_error
      split: sum.splits if_splits)

lemma next_number_error: "next_number db b = Inl e \<Longrightarrow> e \<noteq> InstanceUnavailable"
  by (auto simp add: next_number_def split: option.splits)

lemma BookInstance_save_error:
  "BookInstance_save self db = (Some e, self', db') \<Longrightarrow> e \<noteq> InstanceUnavailable"
  by (auto simp add: BookInstance_save_def Let_def
      dest: get_book_error next_number_error super_save_BookInstance_error
      split: sum.splits if_splits option.splits)

lemma Borrowing_save_error:
  assumes "Borrowing_save self db = (Some e, self', db')"
    and "\<And>inst. get_book_instance self db = Inr inst \<Longrightarrow> is_available inst"
  shows "e \<noteq> InstanceUnavailable"
  using assms(1)
proof (cases rule: Borrowing_save_cases)
  case existing
  then show ?thesis using super_save_Borrowing_error by blast
next
  case (no_instance err)
  then show ?thesis
    by (auto simp add: get_book_instance_def split: option.splits)
next
  case (unavailable inst)
  then show ?thesis using assms(2) by blast
next
  case (no_book inst err)
  then show ?thesis using get_book_error by blast
next
  case (book_failed inst bk err bk')
  from book_failed(5) have "err = IntegrityError" by (cases rule: Book_save_cases) simp_all
  with book_failed show ?thesis by simp
next
  case (instance_failed inst bk bk' db1 err inst')
  then show ?thesis using BookInstance_save_error by blast
next
  case (saved inst bk bk' db1 inst' db2)
  then show ?thesis using super_save_Borrowing_error by blast
qed

lemma BookInstance_save_is_available:
  assumes "BookInstance_save self db = (None, self', db')"
  shows "is_available self' = is_available self"
  using assms by (cases rule: BookInstance_save_cases) simp_all

lemma mark_as_returned_error:
  assumes "mark_as_returned self now db = (Some e, self', db')"
  shows "e \<noteq> InstanceUnavailable"
  using assms
proof (cases rule: mark_as_returned_cases)
  case (no_instance err)
  then show ?thesis by (auto simp add: get_book_instance_def split: option.splits)
next
  case (no_book inst err)
  then show ?thesis using get_book_error by blast
next
  case (book_failed inst bk err bk')
  from book_failed(4) have "err = IntegrityError" by (cases rule: Book_save_cases) simp_all
  with book_failed show ?thesis by simp
next
  case (instance_failed inst bk bk' db1 err inst')
  then show ?thesis using BookInstance_save_error by blast
next
  case (saved inst bk bk' db1 inst' db2)
  have "is_available inst'"
    using BookInstance_save_is_available[OF saved(5)] by (simp add: set_book_def)
  then have "\<And>i. get_book_instance
      (set_book_instance (self\<lparr>is_returned := True, return_date := Some now\<rparr>) inst') db2 = Inr i
      \<Longrightarrow> is_available i"
    by (simp add: get_book_instance_def set_book_instance_def)
  with saved(6) show ?thesis by (rule Borrowing_save_error)
qed simp

lemma Borrowing_objects_create_error:
  assumes "Borrowing_objects_create inst u bd dd ret f db = (Some e, self', db')"
    and "is_available inst"
  shows "e \<noteq> InstanceUnavailable"
proof -
  have "\<And>i. get_book_instance (new_Borrowing inst u bd dd ret f) db = Inr i \<Longrightarrow> is_available i"
    using assms(2) by (simp add: get_book_instance_def new_Borrowing_def)
  with assms(1) show ?thesis
    unfolding Borrowing_objects_create_def by (rule Borrowing_save_error)
qed

lemma filter_available_is_available:
  "bi \<in> set (filter_available db) \<Longrightarrow> is_available bi"
  by (auto simp add: filter_available_def split: option.splits if_splits)

lemma set_update_filter:
  "bi \<in> set (filter (\<lambda>x. f x \<noteq> f y) (xs[n := y])) \<Longrightarrow> bi \<in> set xs \<and> f bi \<noteq> f y"
  using set_update_subset_insert[of xs n y] by auto

text \<open>
  C10, as the code has it. A run of the seeder never raises the ValueError of an
  unavailable copy: the pool it picks from holds only instances whose \<open>is_available\<close> is
  true, at the start, after every pass that ends without an exception (the picked
  instance, which \<open>Borrowing.save\<close> has made unavailable, is removed) and after every
  refresh from the storage; a Borrowing of such an instance never takes the raising
  branch of \<open>Borrowing.save\<close>, nor does \<open>mark_as_returned\<close>. When the run returns without
  an exception, every instance left in its pool is available. The run can raise another
  exception, the IntegrityError of the storage.
\<close>

theorem create_borrowings_never_unavailable:
  "fst (create_borrowings rnd count db) \<noteq> Some InstanceUnavailable \<and>
   (fst (create_borrowings rnd count db) = None \<longrightarrow>
      (\<forall>bi \<in> set (available_instances (snd (create_borrowings rnd count db))).
         is_available bi))"
proof -
  define I where "I = (\<lambda>s :: loop_state. \<forall>bi \<in> set (available_instances s). is_available bi)"
  define Q where
    "Q = (\<lambda>(e :: error option, s :: loop_state).
            e \<noteq> Some InstanceUnavailable \<and> (e = None \<longrightarrow> I s))"
  define s0 where
    "s0 = \<lparr>storage = db, available_instances = filter_available db, created = 0, tries = 0\<rparr>"
  have pool: "\<forall>bi \<in> set (if available_instances s = [] then filter_available (storage s)
                           else available_instances s). is_available bi"
    if "I s" for s
    using that by (auto simp add: I_def filter_available_is_available)
  have i0: "I s0" by (simp add: I_def s0_def filter_available_is_available)
  have loop: "Q (borrowings_loop rnd count (User_ids db) s0)"
    using i0
  proof (rule borrowings_loop_rule[where I = I and Q = Q])
    fix s s' assume i: "I s" and c: "loop_body rnd (User_ids db) s = Continue s'"
    show "I s'"
    proof (cases rule: loop_body_cases[of s rnd "User_ids db"])
      case (continued b db1 b' db2)
      from continued(4) c have
        "available_instances s' =
           filter (\<lambda>bi. BookInstance_id bi \<noteq>
                     BookInstance_id
                       (picked_object
                          ((if available_instances s = [] then filter_available (storage s)
                            else available_instances s) !
                           (pick_instance (rnd (nat (tries s + 1))) mod
                            length (if available_instances s = [] then filter_available (storage s)
                                    else available_instances s))) b'))
             ((if available_instances s = [] then filter_available (storage s)
               else available_instances s)
              [pick_instance (rnd (nat (tries s + 1))) mod
               length (if available_instances s = [] then filter_available (storage s)
                       else available_instances s) :=
                 picked_object
                   ((if available_instances s = [] then filter_available (storage s)
                     else available_instances s) !
                    (pick_instance (rnd (nat (tries s + 1))) mod
                     length (if available_instances s = [] then filter_available (storage s)
                             else available_instances s))) b'])"
        by auto
      then have "bi \<in> set (if available_instances s = [] then filter_available (storage s)
                           else available_instances s)"
        if "bi \<in> set (available_instances s')" for bi
        using that set_update_filter[where f = BookInstance_id and bi = bi] by metis
      with pool[OF i] show ?thesis unfolding I_def by blast
    qed (use c in auto)
  next
    fix s assume "I s"
    then show "Q (None, s)" by (simp add: Q_def)
  next
    fix s s' assume i: "I s" and c: "loop_body rnd (User_ids db) s = Break s'"
    show "Q (None, s')"
      by (cases rule: loop_body_cases[of s rnd "User_ids db"])
        (use c in \<open>auto simp add: Q_def I_def\<close>)
  next
    fix s e s' assume i: "I s" and c: "loop_body rnd (User_ids db) s = Raise e s'"
    define pl where "pl = (if available_instances s = [] then filter_available (storage s)
                           else available_instances s)"
    show "Q (Some e, s')"
    proof (cases rule: loop_body_cases[of s rnd "User_ids db"])
      case (create_failed e1 b db1)
      from create_failed(1) have "pick_instance (rnd (nat (tries s + 1))) mod length pl < length pl"
        by (simp add: pl_def)
      then have "pl ! (pick_instance (rnd (nat (tries s + 1))) mod length pl) \<in> set pl"
        by (rule nth_mem)
      with pool[OF i] have
        "is_available (pl ! (pick_instance (rnd (nat (tries s + 1))) mod length pl))"
        unfolding pl_def by blast
      with create_failed(2) have "e1 \<noteq> InstanceUnavailable"
        unfolding pl_def by (rule Borrowing_objects_create_error)
      with create_failed(3) c show ?thesis by (auto simp add: Q_def)
    next
      case (return_failed b db1 e1 b' db2)
      from return_failed(4) have "e1 \<noteq> InstanceUnavailable" by (rule mark_as_returned_error)
      with return_failed(5) c show ?thesis by (auto simp add: Q_def)
    qed (use c in auto)
  qed
  have "Q (create_borrowings rnd count db)"
  proof (cases "User_ids db = [] \<or> filter_available db = []")
    case True
    then have "create_borrowings rnd count db = (None, s0)"
      by (auto simp add: create_borrowings_def Let_def s0_def)
    then show ?thesis using i0 by (simp add: Q_def)
  next
    case False
    then have "create_borrowings rnd count db = borrowings_loop rnd count (User_ids db) s0"
      by (auto simp add: create_borrowings_def Let_def s0_def)
    with loop show ?thesis by simp
  qed
  then show ?thesis by (simp add: Q_def I_def split_beta)
qed

theorem create_borrowings_never_unavailable_witness:
  "fst (create_borrowings draws_returned 5 two_copies) = None \<and>
   second_copy \<in> set (available_instances (snd (create_borrowings draws_returned 5 two_copies))) \<and>
   is_available second_copy \<and>
   fst (create_borrowings draws_returned 5 two_copies) \<noteq> Some InstanceUnavailable"
proof -
  have m: "fst (create_borrowings draws_returned 5 two_copies) = None"
    "second_copy \<in> set (available_instances (snd (create_borrowings draws_returned 5 two_copies)))"
    by code_simp+
  from create_borrowings_never_unavailable
    [where rnd = draws_returned and count = 5 and db = two_copies] m
  show ?thesis by blast
qed

text \<open>
  The claim as written fails at its conclusion that creating Borrowings in the seeder
  never raises. In \<open>one_of_two\<close> a Book created with one copy has two available
  instances; a run for 2 borrowings that keeps its borrowings creates one, picks the
  second instance, and raises IntegrityError when the Book row with \<open>-1\<close> available
  copies is refused.
\<close>

theorem create_borrowings_never_unavailable_counterexample:
  "User_ids one_of_two = [1] \<and> length (filter_available one_of_two) = 2 \<and>
   fst (create_borrowings draws_kept 2 one_of_two) = Some IntegrityError \<and>
   created (snd (create_borrowings draws_kept 2 one_of_two)) = 1"
  by code_simp

text \<open>
  C8. The seeder of borrowings always returns: its loop is a total function, each pass
  adds one to \<open>tries\<close>, and the loop is entered only while \<open>tries < 10 * count\<close>. When it
  returns, \<open>created\<close> is between 0 and \<open>count\<close>, no more than \<open>tries\<close>, and \<open>tries\<close> is at most
  \<open>10 * count\<close>; and when it returns without an exception, it has created \<open>count\<close>
  borrowings, or made \<open>10 * count\<close> attempts, or found no available instance in the
  storage (at the start or at a refresh of the pool), or found no user at the start.
\<close>

theorem create_borrowings_terminates:
  "(case create_borrowings rnd count db of
      (e, s) \<Rightarrow>
        0 \<le> created s \<and> created s \<le> tries s \<and> tries s \<le> max 0 (10 * count) \<and>
        created s \<le> max 0 count \<and>
        (e = None \<longrightarrow>
           created s = max 0 count \<or> tries s = max 0 (10 * count) \<or>
           filter_available (storage s) = [] \<or> User_ids db = []))"
  by (rule create_borrowings_bounds)

theorem create_borrowings_terminates_witness:
  "fst (create_borrowings draws_returned 5 two_copies) = None \<and>
   created (snd (create_borrowings draws_returned 5 two_copies)) = 5 \<and>
   tries (snd (create_borrowings draws_returned 5 two_copies)) \<le> 50"
proof -
  have e: "fst (create_borrowings draws_returned 5 two_copies) = None"
    "created (snd (create_borrowings draws_returned 5 two_copies)) = 5"
    by code_simp+
  from create_borrowings_terminates[where rnd = draws_returned and count = 5 and db = two_copies] e
  show ?thesis by (simp add: split_beta)
qed

subsection \<open>How many borrowings a run creates\<close>

lemma length_concat_singletons:
  "(\<And>x. x \<in> set xs \<Longrightarrow> length (f x) = (if p x then 1 else 0)) \<Longrightarrow>
   length (concat (map f xs)) = length (filter p xs)"
  by (induction xs) auto

lemma length_filter_available: "length (filter_available db) = card (available_ids db)"
proof -
  let ?p = "\<lambda>j. case BookInstance_rows db j of None \<Rightarrow> False | Some r \<Rightarrow> is_available r"
  have "length (filter_available db) = length (filter ?p [0 ..< BookInstance_seq db])"
    unfolding filter_available_def
    by (rule length_concat_singletons)
      (auto simp add: fetch_BookInstance_def split: option.splits)
  also have "\<dots> = card ({j. ?p j} \<inter> set [0 ..< BookInstance_seq db])"
    by (simp add: distinct_length_filter)
  also have "{j. ?p j} \<inter> set [0 ..< BookInstance_seq db] = available_ids db"
    by (auto simp add: available_ids_def)
  finally show ?thesis .
qed

lemma finite_available_ids: "finite (available_ids db)"
  by (simp add: available_ids_def)

lemma filter_available_mem:
  "bi \<in> set (filter_available db) \<Longrightarrow>
     \<exists>j < BookInstance_seq db. fetch_BookInstance db j = Some bi \<and> is_available bi"
  by (auto simp add: filter_available_def split: option.splits if_splits)

lemma filter_available_ids:
  assumes "bi \<in> set (filter_available db)"
  shows "is_available bi \<and> (\<exists>j. BookInstance_id bi = Some j \<and> j \<in> available_ids db)"
proof -
  from assms obtain j where j: "j < BookInstance_seq db" "fetch_BookInstance db j = Some bi"
    "is_available bi"
    using filter_available_mem by blast
  from fetch_BookInstance_SomeD[OF j(2)] obtain r where
    "BookInstance_id bi = Some j" "BookInstance_rows db j = Some r"
    "is_available bi = is_available r"
    by blast
  with j show ?thesis by (auto simp add: available_ids_def)
qed

lemma Borrowing_objects_create_available_ids:
  assumes run: "Borrowing_objects_create inst u bd dd ret f db = (None, self', db')"
    and id: "BookInstance_id inst = Some j" and j: "j \<in> available_ids db"
  shows "available_ids db' = available_ids db - {j}"
proof -
  from run have "Borrowing_save (new_Borrowing inst u bd dd ret f) db = (None, self', db')"
    by (simp add: Borrowing_objects_create_def)
  then show ?thesis
  proof (cases rule: Borrowing_save_cases)
    case existing
    then show ?thesis by (simp add: new_Borrowing_def)
  next
    case (saved inst0 bk bk' db1 inst' db2)
    from saved(2) have i0: "inst0 = inst"
      by (simp add: get_book_instance_def new_Borrowing_def)
    from saved(5) have d1: "BookInstance_rows db1 = BookInstance_rows db"
      "BookInstance_seq db1 = BookInstance_seq db"
      by (cases rule: Book_save_cases; simp)+
    from saved(7) have d3: "BookInstance_rows db' = BookInstance_rows db2"
      "BookInstance_seq db' = BookInstance_seq db2"
      by (cases rule: super_save_Borrowing_cases; simp)+
    from saved(6) obtain r where
      d2: "BookInstance_rows db2 = (BookInstance_rows db1)(j \<mapsto> r)"
        "BookInstance_seq db2 = max (BookInstance_seq db1) (Suc j)" "\<not> is_available r"
    proof (cases rule: BookInstance_save_cases)
      case (written k r)
      have "k = j" using written(2) id i0 by (simp add: set_book_def)
      moreover have "\<not> is_available r" using written(4,6) by (simp add: set_book_def)
      ultimately show ?thesis using that written(3) by simp
    qed simp
    from j have "j < BookInstance_seq db" by (simp add: available_ids_def)
    then show ?thesis
      using d1 d2 d3 by (auto simp add: available_ids_def split: if_splits)
  qed simp_all
qed


lemma Borrowing_objects_create_picked_id:
  assumes run: "Borrowing_objects_create inst u bd dd ret f db = (None, b, db')"
    and id: "BookInstance_id inst = Some j"
  shows "BookInstance_id (picked_object inst b) = Some j"
proof -
  from run have "Borrowing_save (new_Borrowing inst u bd dd ret f) db = (None, b, db')"
    by (simp add: Borrowing_objects_create_def)
  then show ?thesis
  proof (cases rule: Borrowing_save_cases)
    case existing
    then show ?thesis by (simp add: new_Borrowing_def)
  next
    case (saved inst0 bk bk' db1 inst' db2)
    from saved(2) have i0: "inst0 = inst"
      by (simp add: get_book_instance_def new_Borrowing_def)
    from saved(6) have i': "BookInstance_id inst' = Some j"
      by (cases rule: BookInstance_save_cases) (use id i0 in \<open>simp_all add: set_book_def\<close>)
    from saved(7) have "cached (book_instance b) = None \<or> cached (book_instance b) = Some inst'"
    proof (cases rule: super_save_Borrowing_cases)
      case (written k r)
      from prepare_related_Inr[OF written(6)] show ?thesis
        by (simp add: set_book_instance_def)
    qed simp
    with id i' show ?thesis by (auto simp add: picked_object_def)
  qed simp_all
qed

lemma create_borrowings_no_returns:
  assumes nr: "\<And>t. \<not> drawn_returned (rnd t)"
  shows "created (snd (create_borrowings rnd count db)) \<le> int (length (filter_available db))"
proof -
  define N where "N = int (card (available_ids db))"
  define I where "I = (\<lambda>s :: loop_state.
      created s + int (card (available_ids (storage s))) \<le> N \<and>
      (\<forall>bi \<in> set (available_instances s).
         \<exists>j. BookInstance_id bi = Some j \<and> j \<in> available_ids (storage s)))"
  define Q where "Q = (\<lambda>(e :: error option, s :: loop_state). created s \<le> N)"
  define s0 where
    "s0 = \<lparr>storage = db, available_instances = filter_available db, created = 0, tries = 0\<rparr>"
  have pool: "\<forall>bi \<in> set (if available_instances s = [] then filter_available (storage s)
                           else available_instances s).
                \<exists>j. BookInstance_id bi = Some j \<and> j \<in> available_ids (storage s)"
    if "I s" for s
    using that filter_available_ids by (auto simp add: I_def)
  have i0: "I s0" using filter_available_ids by (auto simp add: I_def s0_def N_def)
  have loop: "Q (borrowings_loop rnd count (User_ids db) s0)"
    using i0
  proof (rule borrowings_loop_rule[where I = I and Q = Q])
    fix s s' assume i: "I s" and c: "loop_body rnd (User_ids db) s = Continue s'"
    define pl where "pl = (if available_instances s = [] then filter_available (storage s)
                           else available_instances s)"
    define at where "at = pick_instance (rnd (nat (tries s + 1))) mod length pl"
    define inst where "inst = pl ! at"
    show "I s'"
    proof (cases rule: loop_body_cases[of s rnd "User_ids db"])
      case (continued b db1 b' db2)
      have d: "db2 = db1" "b' = b" using continued(3) nr by simp_all
      have ne: "pl \<noteq> []" using continued(1) unfolding pl_def by blast
      then have "at < length pl" by (simp add: at_def)
      then have "inst \<in> set pl" unfolding inst_def by (rule nth_mem)
      then obtain j where j: "BookInstance_id inst = Some j" "j \<in> available_ids (storage s)"
        using pool[OF i] by (auto simp add: pl_def)
      have cr: "Borrowing_objects_create inst
          (choice (User_ids db) (pick_user (rnd (nat (tries s + 1)))))
          (drawn_borrow_dt (rnd (nat (tries s + 1))))
          ((drawn_borrow_dt (rnd (nat (tries s + 1))) +
            86400 * drawn_days (rnd (nat (tries s + 1)))) div 86400) False 0 (storage s) =
          (None, b, db1)"
        using continued(2) by (simp only: inst_def at_def pl_def)
      have a: "available_ids db1 = available_ids (storage s) - {j}"
        using cr j by (rule Borrowing_objects_create_available_ids)
      have pj: "BookInstance_id (picked_object inst b) = Some j"
        using cr j(1) by (rule Borrowing_objects_create_picked_id)
      have "0 < card (available_ids (storage s))"
        using j(2) finite_available_ids[of "storage s"] by (auto simp add: card_gt_0_iff)
      moreover have "card (available_ids db1) = card (available_ids (storage s)) - 1"
        using a j(2) by simp
      ultimately have cd:
        "int (card (available_ids db1)) = int (card (available_ids (storage s))) - 1"
        by linarith
      have s': "s' = \<lparr>storage = db1,
                   available_instances =
                     filter (\<lambda>bi. BookInstance_id bi \<noteq> BookInstance_id (picked_object inst b))
                       (pl[at := picked_object inst b]),
                   created = created s + 1, tries = tries s + 1\<rparr>"
        using continued(4) c d by (simp add: inst_def at_def pl_def)
      have "\<exists>j'. BookInstance_id bi = Some j' \<and> j' \<in> available_ids db1"
        if "bi \<in> set (available_instances s')" for bi
      proof -
        from that have "bi \<in> set (filter (\<lambda>bi. BookInstance_id bi \<noteq> BookInstance_id (picked_object inst b))
                       (pl[at := picked_object inst b]))"
          by (simp add: s')
        then have "bi \<in> set pl \<and> BookInstance_id bi \<noteq> BookInstance_id (picked_object inst b)"
          by (rule set_update_filter)
        then have "bi \<in> set pl" "BookInstance_id bi \<noteq> BookInstance_id (picked_object inst b)"
          by blast+
        moreover from pool[OF i] this(1) obtain j' where
          "BookInstance_id bi = Some j'" "j' \<in> available_ids (storage s)"
          unfolding pl_def by blast
        ultimately show ?thesis using pj a by simp
      qed
      moreover have "created s' + int (card (available_ids (storage s'))) \<le> N"
        using i cd by (simp add: I_def s')
      ultimately show ?thesis by (simp add: I_def s')
    qed (use c in auto)
  next
    fix s assume "I s"
    then show "Q (None, s)" by (simp add: Q_def I_def)
  next
    fix s s' assume i: "I s" and c: "loop_body rnd (User_ids db) s = Break s'"
    then show "Q (None, s')" using loop_body_Break_counters[OF c] by (simp add: Q_def I_def)
  next
    fix s e s' assume i: "I s" and c: "loop_body rnd (User_ids db) s = Raise e s'"
    then show "Q (Some e, s')" using loop_body_Raise_counters[OF c] by (simp add: Q_def I_def)
  qed
  have "Q (create_borrowings rnd count db)"
  proof (cases "User_ids db = [] \<or> filter_available db = []")
    case True
    then have "create_borrowings rnd count db = (None, s0)"
      by (auto simp add: create_borrowings_def Let_def s0_def)
    then show ?thesis using i0 by (simp add: Q_def I_def s0_def)
  next
    case False
    then have "create_borrowings rnd count db = borrowings_loop rnd count (User_ids db) s0"
      by (auto simp add: create_borrowings_def Let_def s0_def)
    with loop show ?thesis by simp
  qed
  then show ?thesis by (simp add: Q_def N_def split_beta length_filter_available)
qed


text \<open>
  C6, as the code has it. With exactly two available instances in the storage, a run of
  the seeder for 5 borrowings creates at most 5 borrowings in at most 50 attempts, and
  at most 2 when no borrowing of the run is marked returned: each successful borrowing
  then takes one instance out of the available ones for good. A borrowing that is
  marked returned makes its instance available again, and the refresh of an empty pool
  from the storage picks it up.
\<close>

theorem create_borrowings_two_available:
  assumes "length (filter_available db) = 2"
  shows "created (snd (create_borrowings rnd 5 db)) \<le> 5 \<and>
         tries (snd (create_borrowings rnd 5 db)) \<le> 50 \<and>
         ((\<forall>t. \<not> drawn_returned (rnd t)) \<longrightarrow>
            created (snd (create_borrowings rnd 5 db)) \<le> 2)"
  using create_borrowings_bounds[where rnd = rnd and count = 5 and db = db]
    create_borrowings_no_returns[where rnd = rnd and count = 5 and db = db] assms
  by (auto simp add: split_beta)

theorem create_borrowings_two_available_witness:
  "length (filter_available two_copies) = 2 \<and>
   (\<forall>t. \<not> drawn_returned (draws_kept t)) \<and>
   created (snd (create_borrowings draws_kept 5 two_copies)) \<le> 2 \<and>
   created (snd (create_borrowings draws_kept 5 two_copies)) \<le> 5 \<and>
   tries (snd (create_borrowings draws_kept 5 two_copies)) \<le> 50"
proof -
  have l: "length (filter_available two_copies) = 2" by code_simp
  have k: "\<forall>t. \<not> drawn_returned (draws_kept t)" by (simp add: draws_kept_def)
  from create_borrowings_two_available[where db = two_copies and rnd = draws_kept, OF l] k l
  show ?thesis by blast
qed

text \<open>
  The claim as written fails when borrowings are returned during the run: from the two
  available instances of the example, with every borrowing marked returned, the run
  creates 5 borrowings.
\<close>

theorem create_borrowings_two_available_counterexample:
  "length (filter_available two_copies) = 2 \<and>
   User_ids two_copies = [1] \<and>
   fst (create_borrowings draws_returned 5 two_copies) = None \<and>
   created (snd (create_borrowings draws_returned 5 two_copies)) = 5"
  by code_simp

subsection \<open>Availability and open borrowings\<close>

lemma super_save_Borrowing_cached:
  assumes "cached (book_instance self) = Some inst" and "BookInstance_id inst = Some i"
    and "rel_id (book_instance self) = Some i"
    and "BookInstance_rows db i \<noteq> None" and "borrower self \<in> set (User_ids db)"
  shows "super_save_Borrowing self db =
     (None, self\<lparr>pk := Some (case pk self of None \<Rightarrow> Borrowing_seq db | Some k \<Rightarrow> k)\<rparr>,
      db\<lparr>Borrowing_rows :=
           (Borrowing_rows db)
             ((case pk self of None \<Rightarrow> Borrowing_seq db | Some k \<Rightarrow> k) \<mapsto>
                self\<lparr>pk := Some (case pk self of None \<Rightarrow> Borrowing_seq db | Some k \<Rightarrow> k),
                     book_instance := Related (Some i) None\<rparr>),
         Borrowing_seq :=
           max (Borrowing_seq db) (Suc (case pk self of None \<Rightarrow> Borrowing_seq db | Some k \<Rightarrow> k))\<rparr>)"
proof -
  have "book_instance self = Related (Some i) (Some inst)"
    using assms(3,1) by (rule related_eq)
  then show ?thesis using assms(2,4,5) by (rule super_save_Borrowing_success) simp
qed

lemma Book_save_User_ids:
  assumes "Book_save bk db = (e, bk', db')"
  shows "User_ids db' = User_ids db"
  using assms by (cases rule: Book_save_cases) simp_all

lemma BookInstance_save_User_ids:
  assumes "BookInstance_save self db = (e, self', db')"
  shows "User_ids db' = User_ids db"
  using assms by (cases rule: BookInstance_save_cases) simp_all

text \<open>
  What creating a Borrowing of a fetched instance, for a stored user, does to the two
  tables.
\<close>

lemma Create_Borrowing_tables:
  assumes f: "fetch_BookInstance db i = Some inst" and us: "u \<in> set (User_ids db)"
    and run: "Borrowing_objects_create inst u bd dd False f0 db = (e, self', db')"
  obtains
    (unchanged) "BookInstance_rows db' = BookInstance_rows db"
      "BookInstance_seq db' = BookInstance_seq db"
      "Borrowing_rows db' = Borrowing_rows db" "Borrowing_seq db' = Borrowing_seq db"
      "User_ids db' = User_ids db"
  | (borrowed) r b where "is_available inst"
      "BookInstance_rows db' = (BookInstance_rows db)(i \<mapsto> r)" "\<not> is_available r"
      "BookInstance_seq db' = max (BookInstance_seq db) (Suc i)"
      "Borrowing_rows db' = (Borrowing_rows db)(Borrowing_seq db \<mapsto> b)"
      "rel_id (book_instance b) = Some i" "\<not> is_returned b"
      "Borrowing_seq db' = Suc (Borrowing_seq db)"
      "inventory_number inst \<noteq> [] \<longrightarrow> inventory_number r = inventory_number inst"
      "rel_id (book inst) \<noteq> None \<longrightarrow> rel_id (book r) = rel_id (book inst)"
      "User_ids db' = User_ids db" "borrower b = u"
proof -
  from f have id: "BookInstance_id inst = Some i" using fetch_BookInstance_SomeD by blast
  define self0 where "self0 = new_Borrowing inst u bd dd False f0"
  have s0: "pk self0 = None" "rel_id (book_instance self0) = Some i" "\<not> is_returned self0"
    "get_book_instance self0 db = Inr inst" "borrower self0 = u"
    by (simp_all add: self0_def new_Borrowing_def id get_book_instance_def)
  from run have "Borrowing_save self0 db = (e, self', db')"
    by (simp add: Borrowing_objects_create_def self0_def)
  then show ?thesis
  proof (cases rule: Borrowing_save_cases)
    case existing
    then show ?thesis using s0 by simp
  next
    case (no_instance err)
    then show ?thesis using unchanged by simp
  next
    case (unavailable inst)
    then show ?thesis using unchanged by simp
  next
    case (no_book inst err)
    then show ?thesis using unchanged by simp
  next
    case (book_failed inst1 bk err bk')
    from book_failed(5) have "db' = db" by (cases rule: Book_save_cases) simp_all
    then show ?thesis using unchanged by simp
  next
    case (instance_failed inst1 bk bk' db1 err inst')
    from instance_failed(5) have d1: "BookInstance_rows db1 = BookInstance_rows db"
      "BookInstance_seq db1 = BookInstance_seq db" "Borrowing_rows db1 = Borrowing_rows db"
      "Borrowing_seq db1 = Borrowing_seq db" "User_ids db1 = User_ids db"
      by (cases rule: Book_save_cases; simp)+
    from instance_failed(6) have "db' = db1" by (cases rule: BookInstance_save_cases) simp_all
    with d1 show ?thesis using unchanged by simp
  next
    case (saved inst1 bk bk' db1 inst' db2)
    from saved(2) s0(4) have i1: "inst1 = inst" by simp
    from saved(5) have d1: "BookInstance_rows db1 = BookInstance_rows db"
      "BookInstance_seq db1 = BookInstance_seq db" "Borrowing_rows db1 = Borrowing_rows db"
      "Borrowing_seq db1 = Borrowing_seq db" "User_ids db1 = User_ids db"
      by (cases rule: Book_save_cases; simp)+
    have u2: "User_ids db2 = User_ids db"
      using BookInstance_save_User_ids[OF saved(6)] d1(5) by simp
    from saved(6) obtain r where
      d2: "BookInstance_rows db2 = (BookInstance_rows db1)(i \<mapsto> r)"
        "BookInstance_seq db2 = max (BookInstance_seq db1) (Suc i)" "\<not> is_available r"
        "Borrowing_rows db2 = Borrowing_rows db1" "Borrowing_seq db2 = Borrowing_seq db1"
        "BookInstance_id inst' = Some i"
        "inventory_number inst \<noteq> [] \<longrightarrow> inventory_number r = inventory_number inst"
        "rel_id (book inst) \<noteq> None \<longrightarrow> rel_id (book r) = rel_id (book inst)"
    proof (cases rule: BookInstance_save_cases)
      case (written k r)
      have "k = i" using written(2) id i1 by (simp add: set_book_def)
      moreover have "\<not> is_available r" using written(4,6) by (simp add: set_book_def)
      moreover have "inventory_number inst \<noteq> [] \<longrightarrow> inventory_number r = inventory_number inst"
        using written(4,11) i1 by (simp add: set_book_def)
      moreover have "rel_id (book inst) \<noteq> None \<longrightarrow> rel_id (book r) = rel_id (book inst)"
        using written(4,9) i1 by (simp add: set_book_def uncache_def)
      ultimately show ?thesis using that written(3,5) by simp
    qed simp
    have "super_save_Borrowing (set_book_instance self0 inst') db2 =
       (None, (set_book_instance self0 inst')\<lparr>pk := Some (Borrowing_seq db2)\<rparr>,
        db2\<lparr>Borrowing_rows := (Borrowing_rows db2)(Borrowing_seq db2 \<mapsto>
               (set_book_instance self0 inst')\<lparr>pk := Some (Borrowing_seq db2),
                  book_instance := Related (Some i) None\<rparr>),
            Borrowing_seq := max (Borrowing_seq db2) (Suc (Borrowing_seq db2))\<rparr>)"
      using super_save_Borrowing_cached[of "set_book_instance self0 inst'" inst' i db2]
        d2(1,6) s0(1,2,5) us u2
      by (simp add: set_book_instance_def)
    with saved(7) have d3:
      "db' = db2\<lparr>Borrowing_rows := (Borrowing_rows db2)(Borrowing_seq db2 \<mapsto>
               (set_book_instance self0 inst')\<lparr>pk := Some (Borrowing_seq db2),
                  book_instance := Related (Some i) None\<rparr>),
            Borrowing_seq := max (Borrowing_seq db2) (Suc (Borrowing_seq db2))\<rparr>"
      by auto
    show ?thesis
      by (rule borrowed[of r "(set_book_instance self0 inst')\<lparr>pk := Some (Borrowing_seq db2),
                  book_instance := Related (Some i) None\<rparr>"])
        (use saved(3) i1 d1 d2 d3 s0(3,5) u2 in \<open>simp_all add: set_book_instance_def\<close>)
  qed
qed


lemma fetch_Borrowing_row:
  "fetch_Borrowing db k = Some self \<Longrightarrow>
     \<exists>b. Borrowing_rows db k = Some b \<and> is_returned self = is_returned b \<and>
         rel_id (book_instance self) = rel_id (book_instance b) \<and> borrower self = borrower b"
  by (auto simp add: fetch_Borrowing_def uncache_def split: option.splits if_splits)

text \<open>What marking a fetched Borrowing of a stored user as returned does to the two tables.\<close>

lemma Mark_Returned_tables:
  assumes f: "fetch_Borrowing db k = Some self" and k0: "k \<noteq> 0"
    and us: "borrower self \<in> set (User_ids db)"
    and run: "mark_as_returned self now db = (e, self', db')"
  obtains
    (unchanged) "BookInstance_rows db' = BookInstance_rows db"
      "BookInstance_seq db' = BookInstance_seq db"
      "Borrowing_rows db' = Borrowing_rows db" "Borrowing_seq db' = Borrowing_seq db"
      "User_ids db' = User_ids db"
  | (returned) i r b where "\<not> is_returned self" "rel_id (book_instance self) = Some i"
      "BookInstance_rows db i \<noteq> None"
      "BookInstance_rows db' = (BookInstance_rows db)(i \<mapsto> r)" "is_available r"
      "BookInstance_seq db' = max (BookInstance_seq db) (Suc i)"
      "Borrowing_rows db' = (Borrowing_rows db)(k \<mapsto> b)"
      "rel_id (book_instance b) = Some i" "is_returned b"
      "Borrowing_seq db' = max (Borrowing_seq db) (Suc k)"
      "\<exists>inst. fetch_BookInstance db i = Some inst \<and>
         (inventory_number inst \<noteq> [] \<longrightarrow> inventory_number r = inventory_number inst) \<and>
         (rel_id (book inst) \<noteq> None \<longrightarrow> rel_id (book r) = rel_id (book inst))"
      "User_ids db' = User_ids db" "borrower b = borrower self"
proof -
  from f have pk: "pk self = Some k" and cb: "cached (book_instance self) = None"
    using fetch_Borrowing_SomeD by blast+
  define self1 where "self1 = self\<lparr>is_returned := True, return_date := Some now\<rparr>"
  from run show ?thesis
  proof (cases rule: mark_as_returned_cases)
    case noop
    then show ?thesis using unchanged by simp
  next
    case (no_instance err)
    then show ?thesis using unchanged by simp
  next
    case (no_book inst err)
    then show ?thesis using unchanged by simp
  next
    case (book_failed inst bk err bk')
    from book_failed(4) have "db' = db" by (cases rule: Book_save_cases) simp_all
    then show ?thesis using unchanged by simp
  next
    case (instance_failed inst bk bk' db1 err inst')
    from instance_failed(4) have d1: "BookInstance_rows db1 = BookInstance_rows db"
      "BookInstance_seq db1 = BookInstance_seq db" "Borrowing_rows db1 = Borrowing_rows db"
      "Borrowing_seq db1 = Borrowing_seq db" "User_ids db1 = User_ids db"
      by (cases rule: Book_save_cases; simp)+
    from instance_failed(5) have "db' = db1" by (cases rule: BookInstance_save_cases) simp_all
    with d1 show ?thesis using unchanged by simp
  next
    case (saved inst bk bk' db1 inst' db2)
    from saved(2) cb obtain i where
      ri: "rel_id (book_instance self) = Some i" and fi: "fetch_BookInstance db i = Some inst"
      by (auto simp add: get_book_instance_def split: option.splits)
    from fi have id: "BookInstance_id inst = Some i" and st: "BookInstance_rows db i \<noteq> None"
      using fetch_BookInstance_SomeD by fastforce+
    from saved(4) have d1: "BookInstance_rows db1 = BookInstance_rows db"
      "BookInstance_seq db1 = BookInstance_seq db" "Borrowing_rows db1 = Borrowing_rows db"
      "Borrowing_seq db1 = Borrowing_seq db" "User_ids db1 = User_ids db"
      by (cases rule: Book_save_cases; simp)+
    have u2: "User_ids db2 = User_ids db"
      using BookInstance_save_User_ids[OF saved(5)] d1(5) by simp
    from saved(5) obtain r where
      d2: "BookInstance_rows db2 = (BookInstance_rows db1)(i \<mapsto> r)"
        "BookInstance_seq db2 = max (BookInstance_seq db1) (Suc i)" "is_available r"
        "Borrowing_rows db2 = Borrowing_rows db1" "Borrowing_seq db2 = Borrowing_seq db1"
        "BookInstance_id inst' = Some i"
        "inventory_number inst \<noteq> [] \<longrightarrow> inventory_number r = inventory_number inst"
        "rel_id (book inst) \<noteq> None \<longrightarrow> rel_id (book r) = rel_id (book inst)"
    proof (cases rule: BookInstance_save_cases)
      case (written j r)
      have "j = i" using written(2) id by (simp add: set_book_def)
      moreover have "is_available r" using written(4,6) by (simp add: set_book_def)
      moreover have "inventory_number inst \<noteq> [] \<longrightarrow> inventory_number r = inventory_number inst"
        using written(4,11) by (simp add: set_book_def)
      moreover have "rel_id (book inst) \<noteq> None \<longrightarrow> rel_id (book r) = rel_id (book inst)"
        using written(4,9) by (simp add: set_book_def uncache_def)
      ultimately show ?thesis using that written(3,5) by simp
    qed simp
    define self2 where "self2 = set_book_instance self1 inst'"
    have p2: "pk self2 = Some k" "cached (book_instance self2) = Some inst'"
      "rel_id (book_instance self2) = Some i" "is_returned self2"
      "borrower self2 = borrower self"
      by (simp_all add: self2_def self1_def set_book_instance_def pk ri)
    have st2: "BookInstance_rows db2 i \<noteq> None" "borrower self2 \<in> set (User_ids db2)"
      using d2(1) p2(5) us u2 by simp_all
    have "Borrowing_save self2 db2 = super_save_Borrowing self2 db2"
      using p2(1) k0 by (simp add: Borrowing_save_def)
    also have "\<dots> = (None, self2\<lparr>pk := Some k\<rparr>,
        db2\<lparr>Borrowing_rows := (Borrowing_rows db2)(k \<mapsto>
               self2\<lparr>pk := Some k, book_instance := Related (Some i) None\<rparr>),
            Borrowing_seq := max (Borrowing_seq db2) (Suc k)\<rparr>)"
      using super_save_Borrowing_cached[OF p2(2) d2(6) p2(3) st2] p2(1) by simp
    finally have d3:
      "db' = db2\<lparr>Borrowing_rows := (Borrowing_rows db2)(k \<mapsto>
               self2\<lparr>pk := Some k, book_instance := Related (Some i) None\<rparr>),
            Borrowing_seq := max (Borrowing_seq db2) (Suc k)\<rparr>"
      using saved(6) by (auto simp add: self2_def self1_def)
    show ?thesis
      by (rule returned[of i r "self2\<lparr>pk := Some k, book_instance := Related (Some i) None\<rparr>"])
        (use saved(1) ri st d1 d2 d3 p2 fi u2 in simp_all)
  qed
qed

text \<open>What creating an instance does to the two tables.\<close>

lemma Create_BookInstance_tables:
  assumes run: "BookInstance_save
           \<lparr>BookInstance_id = None, book = bkr, inventory_number = n, condition = c,
            is_available = True\<rparr> db = (e, self', db')"
  obtains
    (unchanged) "BookInstance_rows db' = BookInstance_rows db"
      "BookInstance_seq db' = BookInstance_seq db"
      "Borrowing_rows db' = Borrowing_rows db" "Borrowing_seq db' = Borrowing_seq db"
      "User_ids db' = User_ids db"
  | (created) r where
      "BookInstance_rows db' = (BookInstance_rows db)(BookInstance_seq db \<mapsto> r)"
      "is_available r" "BookInstance_seq db' = Suc (BookInstance_seq db)"
      "Borrowing_rows db' = Borrowing_rows db" "Borrowing_seq db' = Borrowing_seq db"
      "User_ids db' = User_ids db"
  using run
proof (cases rule: BookInstance_save_cases)
  case refused
  then show ?thesis using unchanged by simp
next
  case (written k r)
  have "k = BookInstance_seq db" using written(2) by simp
  moreover have "is_available r" using written(4,6) by simp
  ultimately show ?thesis using created[of r] written(3) by simp
qed

lemma consistent_unchanged:
  assumes "borrowings_consistent db" and "BookInstance_rows db' = BookInstance_rows db"
    and "BookInstance_seq db' = BookInstance_seq db"
    and "Borrowing_rows db' = Borrowing_rows db" and "Borrowing_seq db' = Borrowing_seq db"
    and "User_ids db' = User_ids db"
  shows "borrowings_consistent db'"
  using assms by (simp add: borrowings_consistent_def open_borrowing_def)

lemma consistentD:
  assumes "borrowings_consistent db"
  shows "\<And>i r. BookInstance_rows db i = Some r \<Longrightarrow> (\<not> is_available r) = open_borrowing db i"
    and "\<And>k k' b b'. Borrowing_rows db k = Some b \<Longrightarrow> Borrowing_rows db k' = Some b' \<Longrightarrow>
          rel_id (book_instance b) = rel_id (book_instance b') \<Longrightarrow>
          \<not> is_returned b \<Longrightarrow> \<not> is_returned b' \<Longrightarrow> k = k'"
    and "\<And>k b. Borrowing_rows db k = Some b \<Longrightarrow> 0 < k \<and> k < Borrowing_seq db"
    and "\<And>k b. Borrowing_rows db k = Some b \<Longrightarrow>
           \<exists>i. rel_id (book_instance b) = Some i \<and> BookInstance_rows db i \<noteq> None"
    and "\<And>i r. BookInstance_rows db i = Some r \<Longrightarrow> i < BookInstance_seq db"
    and "0 < Borrowing_seq db"
    and "\<And>k b. Borrowing_rows db k = Some b \<Longrightarrow> borrower b \<in> set (User_ids db)"
  using assms unfolding borrowings_consistent_def by blast+

lemma consistent_created:
  assumes c: "borrowings_consistent db"
    and r: "BookInstance_rows db' = (BookInstance_rows db)(BookInstance_seq db \<mapsto> r)"
      "is_available r" "BookInstance_seq db' = Suc (BookInstance_seq db)"
    and b: "Borrowing_rows db' = Borrowing_rows db" "Borrowing_seq db' = Borrowing_seq db"
    and u: "User_ids db' = User_ids db"
  shows "borrowings_consistent db'"
proof -
  note d = consistentD[OF c]
  have 6: "borrower x \<in> set (User_ids db')" if "Borrowing_rows db' k = Some x" for k x
    using that d(7)[of k x] b u by simp
  have o: "open_borrowing db' i = open_borrowing db i" for i
    by (simp add: open_borrowing_def b)
  have fresh: "\<not> open_borrowing db (BookInstance_seq db)"
  proof
    assume "open_borrowing db (BookInstance_seq db)"
    then obtain k bb where "Borrowing_rows db k = Some bb"
      "rel_id (book_instance bb) = Some (BookInstance_seq db)"
      by (auto simp add: open_borrowing_def)
    with d(4)[of k bb] have "BookInstance_rows db (BookInstance_seq db) \<noteq> None" by auto
    with d(5) show False by fastforce
  qed
  have 1: "(\<not> is_available x) = open_borrowing db' i" if "BookInstance_rows db' i = Some x" for i x
    using that r d(1) fresh by (auto simp add: o split: if_splits)
  have 2: "k = k'" if "Borrowing_rows db' k = Some x" "Borrowing_rows db' k' = Some x'"
    "rel_id (book_instance x) = rel_id (book_instance x')" "\<not> is_returned x" "\<not> is_returned x'"
    for k k' x x'
    using that d(2) by (simp add: b)
  have 3: "0 < k \<and> k < Borrowing_seq db' \<and>
          (\<exists>i. rel_id (book_instance x) = Some i \<and> BookInstance_rows db' i \<noteq> None)"
    if "Borrowing_rows db' k = Some x" for k x
    using that d(3)[of k x] d(4)[of k x] by (auto simp add: b r)
  have 4: "i < BookInstance_seq db'" if "BookInstance_rows db' i = Some x" for i x
    using that d(5)[of i x] r by (auto split: if_splits)
  have 5: "0 < Borrowing_seq db'" using d(6) b by simp
  show ?thesis
    unfolding borrowings_consistent_def using 1 2 3 4 5 6 by blast
qed


lemma consistent_borrowed:
  assumes c: "borrowings_consistent db"
    and a: "BookInstance_rows db i = Some r0" "is_available r0"
    and r: "BookInstance_rows db' = (BookInstance_rows db)(i \<mapsto> r)" "\<not> is_available r"
      "BookInstance_seq db' = max (BookInstance_seq db) (Suc i)"
    and b: "Borrowing_rows db' = (Borrowing_rows db)(Borrowing_seq db \<mapsto> bn)"
      "rel_id (book_instance bn) = Some i" "\<not> is_returned bn"
      "Borrowing_seq db' = Suc (Borrowing_seq db)"
    and u: "User_ids db' = User_ids db" "borrower bn \<in> set (User_ids db)"
  shows "borrowings_consistent db'"
proof -
  note d = consistentD[OF c]
  have 6: "borrower x \<in> set (User_ids db')" if "Borrowing_rows db' k = Some x" for k x
    using that d(7)[of k x] b u by (auto split: if_splits)
  have fresh: "Borrowing_rows db (Borrowing_seq db) = None"
    using d(3)[of "Borrowing_seq db"] by (cases "Borrowing_rows db (Borrowing_seq db)") auto
  have closed: "\<not> open_borrowing db i" using d(1)[OF a(1)] a(2) by simp
  have oi: "open_borrowing db' i"
    unfolding open_borrowing_def using b by auto
  have oj: "open_borrowing db' j = open_borrowing db j" if "j \<noteq> i" for j
    unfolding open_borrowing_def using b fresh that
    by (auto split: if_splits) (metis option.distinct(1))+
  have 1: "(\<not> is_available x) = open_borrowing db' j" if "BookInstance_rows db' j = Some x" for j x
  proof (cases "j = i")
    case True
    with that r oi show ?thesis by simp
  next
    case False
    with that r d(1)[of j x] oj show ?thesis by simp
  qed
  have 2: "k = k'" if h: "Borrowing_rows db' k = Some x" "Borrowing_rows db' k' = Some x'"
    "rel_id (book_instance x) = rel_id (book_instance x')" "\<not> is_returned x" "\<not> is_returned x'"
    for k k' x x'
  proof (cases "k = Borrowing_seq db"; cases "k' = Borrowing_seq db")
    assume "k = Borrowing_seq db" "k' = Borrowing_seq db"
    then show ?thesis by simp
  next
    assume e: "k = Borrowing_seq db" "k' \<noteq> Borrowing_seq db"
    with h b have "Borrowing_rows db k' = Some x'" "rel_id (book_instance x') = Some i" by auto
    with h(5) closed show ?thesis by (auto simp add: open_borrowing_def)
  next
    assume e: "k \<noteq> Borrowing_seq db" "k' = Borrowing_seq db"
    with h b have "Borrowing_rows db k = Some x" "rel_id (book_instance x) = Some i" by auto
    with h(4) closed show ?thesis by (auto simp add: open_borrowing_def)
  next
    assume e: "k \<noteq> Borrowing_seq db" "k' \<noteq> Borrowing_seq db"
    with h b d(2)[of k x k' x'] show ?thesis by simp
  qed
  have 3: "0 < k \<and> k < Borrowing_seq db' \<and>
          (\<exists>j. rel_id (book_instance x) = Some j \<and> BookInstance_rows db' j \<noteq> None)"
    if "Borrowing_rows db' k = Some x" for k x
  proof (cases "k = Borrowing_seq db")
    case True
    then show ?thesis
      using that b r d(6) by auto
  next
    case False
    with that b have "Borrowing_rows db k = Some x" by simp
    with d(3)[of k x] d(4)[of k x] b r show ?thesis by (auto simp add: less_Suc_eq)
  qed
  have 4: "j < BookInstance_seq db'" if "BookInstance_rows db' j = Some x" for j x
    using that d(5)[of j x] r by (auto split: if_splits)
  have 5: "0 < Borrowing_seq db'" using d(6) b by simp
  show ?thesis
    unfolding borrowings_consistent_def using 1 2 3 4 5 6 by blast
qed


lemma consistent_returned:
  assumes c: "borrowings_consistent db"
    and b0: "Borrowing_rows db k = Some b0" "\<not> is_returned b0"
      "rel_id (book_instance b0) = Some i"
    and r: "BookInstance_rows db' = (BookInstance_rows db)(i \<mapsto> r)" "is_available r"
      "BookInstance_seq db' = max (BookInstance_seq db) (Suc i)"
    and b: "Borrowing_rows db' = (Borrowing_rows db)(k \<mapsto> bn)"
      "rel_id (book_instance bn) = Some i" "is_returned bn"
      "Borrowing_seq db' = max (Borrowing_seq db) (Suc k)"
    and u: "User_ids db' = User_ids db" "borrower bn \<in> set (User_ids db)"
  shows "borrowings_consistent db'"
proof -
  note d = consistentD[OF c]
  have 6: "borrower x \<in> set (User_ids db')" if "Borrowing_rows db' k' = Some x" for k' x
    using that d(7)[of k' x] b u by (auto split: if_splits)
  have old: "Borrowing_rows db k' = Some x" if "Borrowing_rows db' k' = Some x" "\<not> is_returned x"
    for k' x
    using that b by (auto split: if_splits)
  have ci: "\<not> open_borrowing db' i"
  proof
    assume "open_borrowing db' i"
    then obtain k' x where x: "Borrowing_rows db' k' = Some x"
      "rel_id (book_instance x) = Some i" "\<not> is_returned x"
      by (auto simp add: open_borrowing_def)
    from old[OF x(1,3)] b0 x(2,3) have "k' = k" using d(2)[of k' x k b0] by simp
    with x b show False by simp
  qed
  have oj: "open_borrowing db' j = open_borrowing db j" if "j \<noteq> i" for j
  proof
    assume "open_borrowing db' j"
    then show "open_borrowing db j" using old by (auto simp add: open_borrowing_def)
  next
    assume "open_borrowing db j"
    then obtain k' x where x: "Borrowing_rows db k' = Some x"
      "rel_id (book_instance x) = Some j" "\<not> is_returned x"
      by (auto simp add: open_borrowing_def)
    with b0 that have "k' \<noteq> k" by auto
    with x b show "open_borrowing db' j" by (auto simp add: open_borrowing_def)
  qed
  have 1: "(\<not> is_available x) = open_borrowing db' j" if "BookInstance_rows db' j = Some x" for j x
  proof (cases "j = i")
    case True
    with that r ci show ?thesis by simp
  next
    case False
    with that r d(1)[of j x] oj show ?thesis by simp
  qed
  have 2: "k1 = k2" if h: "Borrowing_rows db' k1 = Some x" "Borrowing_rows db' k2 = Some x'"
    "rel_id (book_instance x) = rel_id (book_instance x')" "\<not> is_returned x" "\<not> is_returned x'"
    for k1 k2 x x'
    using d(2)[OF old[OF h(1,4)] old[OF h(2,5)] h(3,4,5)] .
  have 3: "0 < k' \<and> k' < Borrowing_seq db' \<and>
          (\<exists>j. rel_id (book_instance x) = Some j \<and> BookInstance_rows db' j \<noteq> None)"
    if "Borrowing_rows db' k' = Some x" for k' x
  proof (cases "k' = k")
    case True
    with that b r d(3)[OF b0(1)] show ?thesis by auto
  next
    case False
    with that b have "Borrowing_rows db k' = Some x" by simp
    with d(3)[of k' x] d(4)[of k' x] b r show ?thesis by auto
  qed
  have 4: "j < BookInstance_seq db'" if "BookInstance_rows db' j = Some x" for j x
    using that d(5)[of j x] r by (auto split: if_splits)
  have 5: "0 < Borrowing_seq db'" using d(6) b by simp
  show ?thesis
    unfolding borrowings_consistent_def using 1 2 3 4 5 6 by blast
qed

lemma step_consistent:
  assumes c: "borrowings_consistent db"
    and kn: "case x of Create_Borrowing i u bd dd \<Rightarrow> u \<in> set (User_ids db) | _ \<Rightarrow> True"
  shows "borrowings_consistent (step db x)"
proof (cases x)
  case Create_User
  have "borrowings_consistent
      (db\<lparr>User_ids := User_ids db @ [User_seq db], User_seq := Suc (User_seq db)\<rparr>)"
    using c unfolding borrowings_consistent_def open_borrowing_def by simp
  with Create_User show ?thesis by simp
next
  case (Create_Book t a)
  obtain e bk' db' where s: "Book_save \<lparr>Book_id = None, total_copies = t, available_copies = a\<rparr> db
      = (e, bk', db')"
    by (metis prod_cases3)
  then have "borrowings_consistent db'"
    by (cases rule: Book_save_cases) (use c in \<open>simp_all add: consistent_unchanged\<close>)
  with Create_Book s show ?thesis by simp
next
  case (Save_Book k t a)
  show ?thesis
  proof (cases "fetch_Book db k")
    case None
    with Save_Book c show ?thesis by simp
  next
    case (Some bk)
    obtain e bk' db' where s: "Book_save (bk\<lparr>total_copies := t, available_copies := a\<rparr>) db
        = (e, bk', db')"
      by (metis prod_cases3)
    then have "borrowings_consistent db'"
      by (cases rule: Book_save_cases) (use c in \<open>simp_all add: consistent_unchanged\<close>)
    with Save_Book Some s show ?thesis by simp
  qed
next
  case (Create_BookInstance b cnd)
  show ?thesis
  proof (cases "fetch_Book db b")
    case None
    with Create_BookInstance c show ?thesis by simp
  next
    case (Some bk)
    obtain e i' db' where s: "BookInstance_save
          \<lparr>BookInstance_id = None, book = Related (Some b) (Some bk), inventory_number = [],
           condition = cnd, is_available = True\<rparr> db = (e, i', db')"
      by (metis prod_cases3)
    then have "borrowings_consistent db'"
    proof (cases rule: Create_BookInstance_tables)
      case unchanged
      with c show ?thesis by (rule consistent_unchanged)
    next
      case (created r)
      with c show ?thesis by (rule consistent_created)
    qed
    with Create_BookInstance Some s show ?thesis by simp
  qed
next
  case (Create_Borrowing i u bd dd)
  with kn have us: "u \<in> set (User_ids db)" by simp
  show ?thesis
  proof (cases "fetch_BookInstance db i")
    case None
    with Create_Borrowing c show ?thesis by simp
  next
    case (Some inst)
    obtain e b' db' where s: "Borrowing_objects_create inst u bd dd False 0 db = (e, b', db')"
      by (metis prod_cases3)
    from Some obtain r0 where r0: "BookInstance_rows db i = Some r0"
      "is_available inst = is_available r0"
      using fetch_BookInstance_SomeD by blast
    from Some us s have "borrowings_consistent db'"
    proof (cases rule: Create_Borrowing_tables)
      case unchanged
      with c show ?thesis by (rule consistent_unchanged)
    next
      case (borrowed r b)
      from borrowed(12) us have bu: "borrower b \<in> set (User_ids db)" by simp
      from c r0(1) borrowed(1)[unfolded r0(2)] borrowed(2-8) borrowed(11) bu show ?thesis
        by (rule consistent_borrowed)
    qed
    with Create_Borrowing Some s show ?thesis by simp
  qed
next
  case (Mark_Returned k now)
  show ?thesis
  proof (cases "fetch_Borrowing db k")
    case None
    with Mark_Returned c show ?thesis by simp
  next
    case (Some self)
    obtain e b' db' where s: "mark_as_returned self now db = (e, b', db')"
      by (metis prod_cases3)
    from Some obtain b0 where b0: "Borrowing_rows db k = Some b0"
      "is_returned self = is_returned b0"
      "rel_id (book_instance self) = rel_id (book_instance b0)"
      "borrower self = borrower b0"
      using fetch_Borrowing_row by blast
    have k0: "k \<noteq> 0" using consistentD(3)[OF c b0(1)] by simp
    have us: "borrower self \<in> set (User_ids db)" using consistentD(7)[OF c b0(1)] b0(4) by simp
    from Some k0 us s have "borrowings_consistent db'"
    proof (cases rule: Mark_Returned_tables)
      case unchanged
      with c show ?thesis by (rule consistent_unchanged)
    next
      case (returned i r b)
      from returned(13) us have bu: "borrower b \<in> set (User_ids db)" by simp
      from c b0(1) returned(1)[unfolded b0(2)] returned(2)[unfolded b0(3)] returned(4-10)
        returned(12) bu
      show ?thesis by (rule consistent_returned)
    qed
    with Mark_Returned Some s show ?thesis by simp
  qed
qed

lemma foldl_step_consistent:
  "borrowings_consistent db \<Longrightarrow> borrowers_known db ops \<Longrightarrow>
   borrowings_consistent (foldl step db ops)"
proof (induction ops arbitrary: db)
  case Nil
  then show ?case by simp
next
  case (Cons x xs)
  from Cons.prems(2) have
    kn: "case x of Create_Borrowing i u bd dd \<Rightarrow> u \<in> set (User_ids db) | _ \<Rightarrow> True"
    and rest: "borrowers_known (step db x) xs"
    by simp_all
  from Cons.prems(1) kn have "borrowings_consistent (step db x)" by (rule step_consistent)
  then have "borrowings_consistent (foldl step (step db x) xs)" using rest by (rule Cons.IH)
  then show ?case by simp
qed

lemma empty_database_consistent: "borrowings_consistent empty_database"
  by (simp add: borrowings_consistent_def empty_database_def open_borrowing_def)

text \<open>
  C5, as the code has it. After any sequence of operations from the empty storage (users,
  Books and instances created, Books saved, Borrowings created not returned, Borrowings
  marked returned), in which each operation acts on objects fetched from the storage
  when it starts and every Borrowing is created for a user who is stored at that point,
  a stored BookInstance has \<open>is_available\<close> false if and only if some stored Borrowing of
  it has \<open>is_returned\<close> false.
\<close>

theorem availability_matches_open_borrowings:
  assumes "borrowers_known empty_database ops"
  shows "\<forall>i r. BookInstance_rows (run ops) i = Some r \<longrightarrow>
      (\<not> is_available r) =
      (\<exists>k b. Borrowing_rows (run ops) k = Some b \<and> rel_id (book_instance b) = Some i \<and>
             \<not> is_returned b)"
proof -
  have "borrowings_consistent (run ops)"
    unfolding run_def using empty_database_consistent assms by (rule foldl_step_consistent)
  then have "\<forall>i r. BookInstance_rows (run ops) i = Some r \<longrightarrow>
      (\<not> is_available r) = open_borrowing (run ops) i"
    using consistentD(1) by blast
  then show ?thesis unfolding open_borrowing_def .
qed

theorem availability_matches_open_borrowings_witness:
  "borrowers_known empty_database borrow_and_return \<and>
   BookInstance_rows (run borrow_and_return) 1 = Some (first_copy False) \<and>
   \<not> is_available (first_copy False) \<and>
   (\<exists>k b. Borrowing_rows (run borrow_and_return) k = Some b \<and>
          rel_id (book_instance b) = Some 1 \<and> \<not> is_returned b) \<and>
   BookInstance_rows (run borrow_and_return) 2 = Some second_copy \<and>
   is_available second_copy \<and>
   \<not> (\<exists>k b. Borrowing_rows (run borrow_and_return) k = Some b \<and>
            rel_id (book_instance b) = Some 2 \<and> \<not> is_returned b)"
proof -
  have h: "borrowers_known empty_database borrow_and_return"
    "BookInstance_rows (run borrow_and_return) 1 = Some (first_copy False)"
    "\<not> is_available (first_copy False)"
    "BookInstance_rows (run borrow_and_return) 2 = Some second_copy"
    "is_available second_copy"
    by code_simp+
  from availability_matches_open_borrowings[OF h(1)] h(2-5) show ?thesis
    using h(1) by blast
qed

subsection \<open>A borrower who is not stored\<close>

lemma keys_in_sequence_cong:
  "Borrowing_rows db' = Borrowing_rows db \<Longrightarrow> Borrowing_seq db' = Borrowing_seq db \<Longrightarrow>
   keys_in_sequence db \<Longrightarrow> keys_in_sequence db'"
  by (simp add: keys_in_sequence_def)

lemma Book_save_keys:
  assumes "Book_save bk db = (e, bk', db')" and "keys_in_sequence db"
  shows "keys_in_sequence db'"
  using assms by (cases rule: Book_save_cases) (simp_all add: keys_in_sequence_def)

lemma BookInstance_save_keys:
  assumes "BookInstance_save self db = (e, self', db')" and "keys_in_sequence db"
  shows "keys_in_sequence db'"
  using assms by (cases rule: BookInstance_save_cases) (simp_all add: keys_in_sequence_def)

lemma super_save_Borrowing_keys:
  assumes "super_save_Borrowing self db = (e, self', db')" and "keys_in_sequence db"
  shows "keys_in_sequence db'"
  using assms by (cases rule: super_save_Borrowing_cases) (auto simp add: keys_in_sequence_def)

lemma Borrowing_save_keys:
  assumes "Borrowing_save self db = (e, self', db')" and inv: "keys_in_sequence db"
  shows "keys_in_sequence db'"
  using assms(1)
proof (cases rule: Borrowing_save_cases)
  case existing
  then show ?thesis using inv super_save_Borrowing_keys by blast
next
  case (book_failed inst bk err bk')
  then show ?thesis using inv Book_save_keys by blast
next
  case (instance_failed inst bk bk' db1 err inst')
  then show ?thesis using inv Book_save_keys BookInstance_save_keys by blast
next
  case (saved inst bk bk' db1 inst' db2)
  have "keys_in_sequence db1" using saved(5) inv by (rule Book_save_keys)
  with saved(6) have "keys_in_sequence db2" by (rule BookInstance_save_keys)
  with saved(7) show ?thesis by (rule super_save_Borrowing_keys)
qed (use inv in simp_all)

lemma mark_as_returned_keys:
  assumes "mark_as_returned self now db = (e, self', db')" and inv: "keys_in_sequence db"
  shows "keys_in_sequence db'"
  using assms(1)
proof (cases rule: mark_as_returned_cases)
  case (book_failed inst bk err bk')
  then show ?thesis using inv Book_save_keys by blast
next
  case (instance_failed inst bk bk' db1 err inst')
  then show ?thesis using inv Book_save_keys BookInstance_save_keys by blast
next
  case (saved inst bk bk' db1 inst' db2)
  have "keys_in_sequence db1" using saved(4) inv by (rule Book_save_keys)
  with saved(5) have "keys_in_sequence db2" by (rule BookInstance_save_keys)
  with saved(6) show ?thesis by (rule Borrowing_save_keys)
qed (use inv in simp_all)

lemma step_keys:
  assumes inv: "keys_in_sequence db"
  shows "keys_in_sequence (step db x)"
proof (cases x)
  case Create_User
  then show ?thesis using inv by (simp add: keys_in_sequence_def)
next
  case (Create_Book t a)
  then show ?thesis
    using Book_save_keys[OF _ inv] by (metis prod.collapse step.simps(2))
next
  case (Save_Book k t a)
  then show ?thesis
    using Book_save_keys[OF _ inv] inv
    by (cases "fetch_Book db k") (simp, metis (no_types, lifting) option.simps(5) prod.collapse step.simps(3))
next
  case (Create_BookInstance b c)
  then show ?thesis
    using BookInstance_save_keys[OF _ inv] inv
    by (cases "fetch_Book db b") (simp, metis (no_types, lifting) option.simps(5) prod.collapse step.simps(4))
next
  case (Create_Borrowing i u bd dd)
  then show ?thesis
    using Borrowing_save_keys[OF _ inv] inv
    by (cases "fetch_BookInstance db i")
      (simp, metis (no_types, lifting) Borrowing_objects_create_def option.simps(5) prod.collapse step.simps(5))
next
  case (Mark_Returned k now)
  then show ?thesis
    using mark_as_returned_keys[OF _ inv] inv
    by (cases "fetch_Borrowing db k") (simp, metis (no_types, lifting) option.simps(5) prod.collapse step.simps(6))
qed

lemma run_keys: "keys_in_sequence (run ops)"
proof -
  have "keys_in_sequence db \<Longrightarrow> keys_in_sequence (foldl step db ops)" for db
    by (induction ops arbitrary: db) (simp_all add: step_keys)
  moreover have "keys_in_sequence empty_database"
    by (simp add: keys_in_sequence_def empty_database_def)
  ultimately show ?thesis unfolding run_def by blast
qed

text \<open>
  The claim as written fails when a Borrowing is created for a user who is not stored.
  In \<open>unknown_borrower\<close> no user is stored and the first copy is borrowed for the user
  key 7: \<open>Borrowing.save\<close> has saved the instance as unavailable when the storage refuses
  the Borrowing row, so the instance is unavailable and no Borrowing is stored at all.
\<close>

theorem availability_matches_open_borrowings_counterexample:
  "User_ids unknown_borrower = [] \<and>
   BookInstance_rows unknown_borrower 1 = Some (first_copy False) \<and>
   \<not> is_available (first_copy False) \<and>
   \<not> (\<exists>k b. Borrowing_rows unknown_borrower k = Some b \<and>
            rel_id (book_instance b) = Some 1 \<and> \<not> is_returned b)"
proof -
  have e: "User_ids unknown_borrower = []"
    "BookInstance_rows unknown_borrower 1 = Some (first_copy False)"
    "\<not> is_available (first_copy False)"
    "Borrowing_seq unknown_borrower = 1" "Borrowing_rows unknown_borrower 0 = None"
    by code_simp+
  have "keys_in_sequence unknown_borrower" unfolding unknown_borrower_def by (rule run_keys)
  with e(4) have "k = 0" if "Borrowing_rows unknown_borrower k = Some b" for k b
    using that unfolding keys_in_sequence_def by fastforce
  with e(5) have "Borrowing_rows unknown_borrower k \<noteq> Some b" for k b
    by fastforce
  with e(1-3) show ?thesis by simp
qed

end
